theory Spec2Isabelle
  imports Complex_Main
begin

section \<open>Python and numpy values\<close>

text \<open>
  The aggregation code of \<^verbatim>\<open>src/strategies/aggregate.py\<close> works on numpy arrays of
  64-bit floats. The model idealises a float as a \<^typ>\<open>real\<close> (exact arithmetic, no NaN,
  no infinity, no rounding) and an array as the list of its elements in row-major order:
  the shape of a layer is not kept, so every array is treated as one-dimensional.
  Exceptions are values: a computation returns \<open>Inl e\<close> where Python raises \<open>e\<close>.
\<close>

datatype exn = TypeError | IndexError | KeyError string | ValueError string | LinAlgError

type_synonym ndarray = "real list"
type_synonym ndarrays = "ndarray list"

text \<open>A list comprehension whose element expression may raise: the first exception, in
  list order, ends it.\<close>

fun sequence_exn :: "(exn + 'a) list \<Rightarrow> exn + 'a list" where
  "sequence_exn [] = Inr []"
| "sequence_exn (r # rs) =
     (case r of
        Inl e \<Rightarrow> Inl e
      | Inr x \<Rightarrow> (case sequence_exn rs of Inl e \<Rightarrow> Inl e | Inr xs \<Rightarrow> Inr (x # xs)))"

text \<open>\<^verbatim>\<open>functools.reduce(f, xs)\<close> with no initial value: a left fold, TypeError on an
  empty sequence.\<close>

fun reduce :: "('a \<Rightarrow> 'a \<Rightarrow> exn + 'a) \<Rightarrow> 'a list \<Rightarrow> exn + 'a" where
  "reduce f [] = Inl TypeError"
| "reduce f [x] = Inr x"
| "reduce f (x # y # ys) = (case f x y of Inl e \<Rightarrow> Inl e | Inr z \<Rightarrow> reduce f (z # ys))"

text \<open>\<^verbatim>\<open>zip(*xss)\<close>: the columns of a list of rows, cut at the shortest row; no column at
  all for no row.\<close>

fun min_length :: "'a list list \<Rightarrow> nat" where
  "min_length [] = 0"
| "min_length [xs] = length xs"
| "min_length (xs # ys # xss) = min (length xs) (min_length (ys # xss))"

definition zip_star :: "'a list list \<Rightarrow> 'a list list" where
  "zip_star xss = map (\<lambda>j. map (\<lambda>xs. xs ! j) xss) [0..<min_length xss]"

text \<open>An elementwise numpy operation on two one-dimensional arrays, with numpy's
  broadcasting: equal lengths, or one operand of length one; anything else raises
  ValueError.\<close>

definition np_broadcast :: "(real \<Rightarrow> real \<Rightarrow> real) \<Rightarrow> ndarray \<Rightarrow> ndarray \<Rightarrow> exn + ndarray" where
  "np_broadcast f x y =
     (if length x = length y then Inr (map2 f x y)
      else if length y = 1 then Inr (map (\<lambda>a. f a (hd y)) x)
      else if length x = 1 then Inr (map (\<lambda>b. f (hd x) b) y)
      else Inl (ValueError ''operands could not be broadcast together''))"

definition np_add :: "ndarray \<Rightarrow> ndarray \<Rightarrow> exn + ndarray" where
  "np_add = np_broadcast (+)"

definition np_subtract :: "ndarray \<Rightarrow> ndarray \<Rightarrow> exn + ndarray" where
  "np_subtract = np_broadcast (-)"

text \<open>\<^verbatim>\<open>np.inner\<close> of two one-dimensional arrays: the dot product; the lengths must agree.\<close>

definition np_inner :: "ndarray \<Rightarrow> ndarray \<Rightarrow> exn + real" where
  "np_inner x y =
     (if length x = length y then Inr (sum_list (map2 (*) x y))
      else Inl (ValueError ''shapes not aligned''))"

text \<open>\<^verbatim>\<open>fp[params_indexes]\<close>: indexing an array by an array of non-negative indices;
  IndexError when one of them is out of bounds.\<close>

definition take_indices :: "ndarray \<Rightarrow> nat list \<Rightarrow> exn + ndarray" where
  "take_indices fp idx =
     (if list_all (\<lambda>i. i < length fp) idx then Inr (map (\<lambda>i. fp ! i) idx) else Inl IndexError)"

text \<open>\<^verbatim>\<open>results[i]\<close> on a Python list, for an index that is not negative.\<close>

definition py_index :: "'a list \<Rightarrow> nat \<Rightarrow> exn + 'a" where
  "py_index xs i = (if i < length xs then Inr (xs ! i) else Inl IndexError)"

text \<open>\<^verbatim>\<open>int(x)\<close> on a float truncates towards zero.\<close>

definition py_int :: "real \<Rightarrow> int" where
  "py_int x = (if 0 \<le> x then \<lfloor>x\<rfloor> else \<lceil>x\<rceil>)"

text \<open>\<^verbatim>\<open>xs[:k]\<close>: the first \<open>k\<close> elements, and for a negative \<open>k\<close> all but the last
  \<open>-k\<close>.\<close>

definition slice_to :: "'a list \<Rightarrow> int \<Rightarrow> 'a list" where
  "slice_to xs k = (if 0 \<le> k then take (nat k) xs else take (length xs - nat (- k)) xs)"

subsection \<open>The numpy calls that the model does not compute\<close>

text \<open>
  Three numpy functions are parameters of the model, a record of functions:
  \<^item> \<open>randint g high k\<close> is \<^verbatim>\<open>np.random.randint(0, high, size=k)\<close> on numpy's
    process-wide generator in state \<open>g\<close>: the indices drawn and the generator's next state;
  \<^item> \<open>svd_vh0 M\<close> is \<^verbatim>\<open>np.linalg.svd(M, full_matrices=False)[2][0, :]\<close>, the first right
    singular vector of the matrix whose rows are \<open>M\<close>, or the exception numpy raises;
  \<^item> \<open>argsort s\<close> is \<^verbatim>\<open>np.argsort(np.array(s))\<close>; numpy's default sort is not stable, so
    the order of equal scores is left to the parameter.
\<close>

record 'g numpy =
  randint :: "'g \<Rightarrow> nat \<Rightarrow> nat \<Rightarrow> nat list \<times> 'g"
  svd_vh0 :: "ndarray list \<Rightarrow> exn + ndarray"
  argsort :: "real list \<Rightarrow> nat list"

text \<open>What the theorems assume of them, each on its own: the draw has \<open>k\<close> indices
  below \<open>high\<close>; the decomposition of a matrix with at least one row and one column
  returns a vector with one entry per column; the sort returns a permutation of the
  positions along which the scores do not decrease.\<close>

definition rectangular :: "'a list list \<Rightarrow> nat \<Rightarrow> bool" where
  "rectangular M d = list_all (\<lambda>row. length row = d) M"

definition randint_ok :: "'g numpy \<Rightarrow> bool" where
  "randint_ok np = (\<forall>g high k. 0 < high \<longrightarrow>
      length (fst (randint np g high k)) = k \<and>
      list_all (\<lambda>i. i < high) (fst (randint np g high k)))"

definition svd_ok :: "'g numpy \<Rightarrow> bool" where
  "svd_ok np = (\<forall>M d. M \<noteq> [] \<longrightarrow> 0 < d \<longrightarrow> rectangular M d \<longrightarrow>
      (\<exists>v. svd_vh0 np M = Inr v \<and> length v = d))"

definition argsort_ok :: "'g numpy \<Rightarrow> bool" where
  "argsort_ok np = (\<forall>s. distinct (argsort np s) \<and> set (argsort np s) = {0..<length s} \<and>
      sorted (map (\<lambda>i. s ! i) (argsort np s)))"

section \<open>Flower's weighted average\<close>

text \<open>
  \<^verbatim>\<open>flwr.server.strategy.aggregate.aggregate\<close>, a function of the Flower library that
  \<^verbatim>\<open>aggregate.py\<close> imports; FedAvg calls it on all results and \<^verbatim>\<open>aggregate_dnc\<close> on the
  kept ones. In Flower it reads
  \<^verbatim>\<open>
  num_examples_total = sum([num_examples for _, num_examples in results])
  weighted_weights = [
      [layer * num_examples for layer in weights] for weights, num_examples in results
  ]
  weights_prime = [
      reduce(np.add, layer_updates) / num_examples_total
      for layer_updates in zip(*weighted_weights)
  ]
  return weights_prime
  \<close>
  Every layer is multiplied by its client's
  \<^verbatim>\<open>num_examples\<close>, the layers are summed position by position with \<^verbatim>\<open>reduce(np.add, ...)\<close>
  over \<^verbatim>\<open>zip(*weighted_weights)\<close>, and each sum is divided by the total of
  \<^verbatim>\<open>num_examples\<close>. Dividing a non-empty array by a total of zero raises nothing in numpy:
  it returns NaN or infinite entries, which the reals do not have, so that outcome is the
  value \<open>NotFinite\<close>.
\<close>

datatype averaged = Averaged ndarrays | NotFinite

definition aggregate :: "(ndarrays \<times> int) list \<Rightarrow> exn + averaged" where
  "aggregate results =
     (let num_examples_total = sum_list (map snd results);
          weighted_weights =
            map (\<lambda>(weights, num_examples).
                   map (\<lambda>layer. map (\<lambda>x. x * of_int num_examples) layer) weights) results
      in case sequence_exn (map (reduce np_add) (zip_star weighted_weights)) of
           Inl e \<Rightarrow> Inl e
         | Inr totals \<Rightarrow>
             if num_examples_total = 0 \<and> \<not> list_all (\<lambda>t. t = []) totals then Inr NotFinite
             else Inr (Averaged (map (map (\<lambda>x. x / of_int num_examples_total)) totals)))"

section \<open>Divide-and-conquer aggregation\<close>

text \<open>Modelled from the spec: \<^verbatim>\<open>flatten_params\<close> of the repository's \<^verbatim>\<open>utils\<close> module,
  which is not among the sources. The spec has it concatenate all layers in layer order,
  each layer in its element order.\<close>

definition flatten_params :: "ndarrays \<Rightarrow> ndarray" where
  "flatten_params params = concat params"

text \<open>Line 12: the flattened parameters of every client, in the order of the results.\<close>

definition flattened :: "(ndarrays \<times> int) list \<Rightarrow> ndarray list" where
  "flattened results = map (\<lambda>(params, _). flatten_params params) results"

text \<open>\<^verbatim>\<open>to_keep = int(num_clients - c * num_malicious)\<close>.\<close>

definition to_keep :: "nat \<Rightarrow> real \<Rightarrow> int \<Rightarrow> int" where
  "to_keep num_clients c num_malicious = py_int (real num_clients - c * of_int num_malicious)"

text \<open>
  Lines 16 to 22: the projection. \<^verbatim>\<open>flattened_params[0]\<close> is read only when \<open>b > 0\<close>
  (the \<^verbatim>\<open>and\<close> is short-circuit) and raises IndexError on an empty list. The assignment
  \<^verbatim>\<open>b = min(b, len(flattened_params[0]))\<close> stands under the guard \<open>len > b\<close> and leaves
  \<open>b\<close> as it is. One call of \<^verbatim>\<open>np.random.randint\<close> draws the indices, and the same index
  array then indexes every client's vector.
\<close>

definition dnc_sample :: "'g numpy \<Rightarrow> ndarray list \<Rightarrow> int \<Rightarrow> 'g \<Rightarrow> (exn + ndarray list) \<times> 'g" where
  "dnc_sample np flattened_params b g =
     (if 0 < b then
        (case flattened_params of
           [] \<Rightarrow> (Inl IndexError, g)
         | fp0 # _ \<Rightarrow>
             if b < int (length fp0) then
               (case randint np g (length fp0) (nat b) of
                  (params_indexes, g') \<Rightarrow>
                    (sequence_exn (map (\<lambda>fp. take_indices fp params_indexes) flattened_params), g'))
             else (Inr flattened_params, g))
      else (Inr flattened_params, g))"

text \<open>The condition of line 17 holds: the pass projects.\<close>

definition projects :: "int \<Rightarrow> ndarray list \<Rightarrow> bool" where
  "projects b flat = (0 < b \<and> flat \<noteq> [] \<and> b < int (length (hd flat)))"

text \<open>Lines 24 to 27: \<^verbatim>\<open>mu\<close>, one mean per coordinate (\<^verbatim>\<open>zip\<close> runs over the coordinates
  of the sampled vectors).\<close>

definition dnc_mu :: "ndarray list \<Rightarrow> exn + ndarray" where
  "dnc_mu sampled_params =
     sequence_exn (map (\<lambda>layer_updates.
        case reduce (\<lambda>a b. Inr (a + b)) layer_updates of
          Inl e \<Rightarrow> Inl e
        | Inr t \<Rightarrow> Inr (t / real (length sampled_params))) (zip_star sampled_params))"

text \<open>Lines 29 to 31: \<^verbatim>\<open>model_c\<close>, every sampled vector minus \<^verbatim>\<open>mu\<close>.\<close>

definition dnc_center :: "ndarray list \<Rightarrow> ndarray \<Rightarrow> exn + ndarray list" where
  "dnc_center sampled_params mu = sequence_exn (map (\<lambda>p. np_subtract p mu) sampled_params)"

text \<open>Line 33: the scores, \<^verbatim>\<open>np.inner(model_i, v[0, :]) ** 2\<close> for \<^verbatim>\<open>model_i\<close> in
  \<^verbatim>\<open>sampled_params\<close>.\<close>

definition dnc_scores :: "ndarray list \<Rightarrow> ndarray \<Rightarrow> exn + real list" where
  "dnc_scores sampled_params v0 =
     sequence_exn (map (\<lambda>model_i.
        case np_inner model_i v0 of Inl e \<Rightarrow> Inl e | Inr t \<Rightarrow> Inr (t ^ 2)) sampled_params)"

text \<open>One pass of the loop body, lines 16 to 39. It returns the scores \<open>s\<close> next to the
  kept indices \<open>I\<close> (the loop stores only \<open>set I\<close>), and the generator's state; an
  exception leaves the generator where the pass had brought it.\<close>

definition dnc_iteration ::
  "'g numpy \<Rightarrow> ndarray list \<Rightarrow> nat \<Rightarrow> real \<Rightarrow> int \<Rightarrow> int \<Rightarrow> 'g \<Rightarrow> (exn + real list \<times> nat list) \<times> 'g" where
  "dnc_iteration np flattened_params num_clients c b num_malicious g =
     (case dnc_sample np flattened_params b g of
        (Inl e, g') \<Rightarrow> (Inl e, g')
      | (Inr sampled_params, g') \<Rightarrow>
     (case dnc_mu sampled_params of
        Inl e \<Rightarrow> (Inl e, g')
      | Inr mu \<Rightarrow>
     (case dnc_center sampled_params mu of
        Inl e \<Rightarrow> (Inl e, g')
      | Inr model_c \<Rightarrow>
     (case svd_vh0 np model_c of
        Inl e \<Rightarrow> (Inl e, g')
      | Inr v0 \<Rightarrow>
     (case dnc_scores sampled_params v0 of
        Inl e \<Rightarrow> (Inl e, g')
      | Inr s \<Rightarrow>
          (Inr (s, slice_to (argsort np s) (to_keep num_clients c num_malicious)), g'))))))"

text \<open>The loop \<^verbatim>\<open>for _ in range(niters)\<close>, appending one kept set per pass to
  \<^verbatim>\<open>I_good\<close>.\<close>

fun dnc_loop ::
  "'g numpy \<Rightarrow> ndarray list \<Rightarrow> nat \<Rightarrow> real \<Rightarrow> int \<Rightarrow> int \<Rightarrow> nat \<Rightarrow> nat set list \<Rightarrow> 'g
     \<Rightarrow> (exn + nat set list) \<times> 'g" where
  "dnc_loop np flattened_params num_clients c b num_malicious 0 I_good g = (Inr I_good, g)"
| "dnc_loop np flattened_params num_clients c b num_malicious (Suc k) I_good g =
     (case dnc_iteration np flattened_params num_clients c b num_malicious g of
        (Inl e, g') \<Rightarrow> (Inl e, g')
      | (Inr (s, I), g') \<Rightarrow>
          dnc_loop np flattened_params num_clients c b num_malicious k (I_good @ [set I]) g')"

text \<open>The kept sets of a whole call: lines 11 to 39.\<close>

definition dnc_kept_sets ::
  "'g numpy \<Rightarrow> (ndarrays \<times> int) list \<Rightarrow> real \<Rightarrow> int \<Rightarrow> int \<Rightarrow> int \<Rightarrow> 'g \<Rightarrow> (exn + nat set list) \<times> 'g" where
  "dnc_kept_sets np results c b niters num_malicious g =
     dnc_loop np (flattened results) (length results) c b num_malicious (nat niters) [] g"

text \<open>
  Line 41. \<^verbatim>\<open>set.intersection(*I_good)\<close> raises TypeError when \<^verbatim>\<open>I_good\<close> is empty
  (no pass ran); otherwise it is the intersection of the first set with all the others.
\<close>

definition dnc_I_final ::
  "'g numpy \<Rightarrow> (ndarrays \<times> int) list \<Rightarrow> real \<Rightarrow> int \<Rightarrow> int \<Rightarrow> int \<Rightarrow> 'g \<Rightarrow> (exn + nat set) \<times> 'g" where
  "dnc_I_final np results c b niters num_malicious g =
     (case dnc_kept_sets np results c b niters num_malicious g of
        (Inl e, g') \<Rightarrow> (Inl e, g')
      | (Inr [], g') \<Rightarrow> (Inl TypeError, g')
      | (Inr (K # Ks), g') \<Rightarrow> (Inr (fold (\<inter>) Ks K), g'))"

text \<open>
  Lines 41 to 45. \<^verbatim>\<open>list(...)\<close> lists the intersection in the set's iteration order; the
  model lists it in ascending order, which changes nothing but the order of the
  summands in \<^verbatim>\<open>aggregate\<close>. The function has no branch of its own for an empty
  intersection: \<^verbatim>\<open>res\<close> is then the empty list, and \<^verbatim>\<open>aggregate\<close> is called on it.
\<close>

definition aggregate_dnc ::
  "'g numpy \<Rightarrow> (ndarrays \<times> int) list \<Rightarrow> real \<Rightarrow> int \<Rightarrow> int \<Rightarrow> int \<Rightarrow> 'g \<Rightarrow> (exn + averaged) \<times> 'g" where
  "aggregate_dnc np results c b niters num_malicious g =
     (case dnc_I_final np results c b niters num_malicious g of
        (Inl e, g') \<Rightarrow> (Inl e, g')
      | (Inr I_final, g') \<Rightarrow>
          (case sequence_exn (map (py_index results) (sorted_list_of_set I_final)) of
             Inl e \<Rightarrow> (Inl e, g')
           | Inr res \<Rightarrow> (aggregate res, g')))"

text \<open>FedAvg, the baseline the other strategies are compared with, is \<^verbatim>\<open>aggregate\<close> on all
  the results.\<close>

definition fedavg :: "(ndarrays \<times> int) list \<Rightarrow> exn + averaged" where
  "fedavg results = aggregate results"

subsection \<open>The weighted mean, as the spec words it\<close>

text \<open>
  The spec speaks of the \<^verbatim>\<open>num_examples\<close>-weighted mean of a list of updates. For updates
  of one shape, entry \<open>j\<close> of layer \<open>l\<close> of the mean is the sum over the clients of the
  entry times the client's weight, divided by the sum of the weights. This definition is
  the yardstick \<^verbatim>\<open>aggregate\<close> is compared with; it is not taken from the code.
\<close>

definition weighted_mean :: "(ndarrays \<times> int) list \<Rightarrow> ndarrays" where
  "weighted_mean rs =
     (case rs of
        [] \<Rightarrow> []
      | (w0, _) # _ \<Rightarrow>
          map (\<lambda>l. map (\<lambda>j. sum_list (map (\<lambda>(w, k). w ! l ! j * of_int k) rs)
                                / of_int (sum_list (map snd rs)))
                       [0..<length (w0 ! l)])
              [0..<length w0])"

text \<open>All clients send layers of the same lengths, \<open>shape\<close>.\<close>

definition same_shape :: "(ndarrays \<times> int) list \<Rightarrow> nat list \<Rightarrow> bool" where
  "same_shape rs shape = list_all (\<lambda>(w, k). map length w = shape) rs"

text \<open>The generator's state after one projecting pass over vectors of length \<open>d\<close>.\<close>

definition after_draw :: "'g numpy \<Rightarrow> nat \<Rightarrow> int \<Rightarrow> 'g \<Rightarrow> 'g" where
  "after_draw np d b g = snd (randint np g d (nat b))"

subsection \<open>A small numpy for running the model\<close>

text \<open>
  To run the model on concrete inputs the three numpy functions need values. The
  generator's state is the list of the raw numbers it will hand out next (zeros after
  the list ends), and a draw reduces them modulo \<open>high\<close>. The sort is a stable insertion
  sort; the scores of the examples below are either distinct or all equal. The decomposition
  answers with the first unit vector; that is a first right singular vector exactly when
  no unit vector is stretched more by the matrix than the first one, which holds for a
  matrix with a single column and for a matrix that is zero outside its first column,
  the only matrices the examples below decompose.
\<close>

definition list_randint :: "nat list \<Rightarrow> nat \<Rightarrow> nat \<Rightarrow> nat list \<times> nat list" where
  "list_randint g high k = (map (\<lambda>r. r mod high) (take k (g @ replicate k 0)), drop k g)"

definition unit_svd :: "ndarray list \<Rightarrow> exn + ndarray" where
  "unit_svd M =
     (case M of
        [] \<Rightarrow> Inl LinAlgError
      | row # _ \<Rightarrow>
          if row \<noteq> [] \<and> rectangular M (length row) then Inr (1 # replicate (length row - 1) 0)
          else Inl LinAlgError)"

definition stable_argsort :: "real list \<Rightarrow> nat list" where
  "stable_argsort s = map snd (sort_key fst (zip s [0..<length s]))"

definition small_numpy :: "(nat list) numpy" where
  "small_numpy = \<lparr>randint = list_randint, svd_vh0 = unit_svd, argsort = stable_argsort\<rparr>"

subsection \<open>Results for running the aggregation\<close>

text \<open>Each is a list of client results, the parameters (a list of layers) and
  \<^verbatim>\<open>num_examples\<close>. In all of them the centred matrix of every pass either has one column
  or is zero outside its first column.\<close>

definition two_opposed :: "(ndarrays \<times> int) list" where
  "two_opposed = [([[0, 1]], 1), ([[1, 0]], 1)]"

definition with_outlier :: "(ndarrays \<times> int) list" where
  "with_outlier = [([[0]], 1), ([[10]], 1), ([[11]], 1)]"

definition three_crossed :: "(ndarrays \<times> int) list" where
  "three_crossed = [([[0, 2]], 1), ([[1, 1]], 1), ([[2, 0]], 1)]"

definition two_layers :: "(ndarrays \<times> int) list" where
  "two_layers = [([[0], [5]], 1), ([[10], [5]], 3), ([[11], [5]], 2)]"

definition all_equal :: "(ndarrays \<times> int) list" where
  "all_equal = [([[1, 2], [3]], 2), ([[1, 2], [3]], 1), ([[1, 2], [3]], 5)]"

text \<open>Two flattened vectors of three coordinates.\<close>

definition two_vectors :: "ndarray list" where
  "two_vectors = [[10, 20, 30], [40, 50, 60]]"

section \<open>The experiment script\<close>

text \<open>
  \<^verbatim>\<open>main\<close> of \<^verbatim>\<open>src/main.py\<close> reads a configuration and acts on the world: it seeds the
  generators, prints, deletes a directory, prepares a dataset, builds a strategy, starts
  the simulation and appends to two CSV files. The model returns the list of these
  effects in order, and how the call ended. The collaborators it calls (dataset
  loaders, \<^verbatim>\<open>instantiate\<close>, \<^verbatim>\<open>start_simulation\<close>, pandas) are effects that return; what
  they compute is not modelled.
\<close>

record cfg =
  seed :: int
  strategy_name :: string
  num_malicious :: int
  attack_fn :: string
  dataset :: string
  history_dir :: string
  output_dir :: string

datatype effect =
    SetSeeds int
  | Print string
  | Rmtree string
  | PrepareDataset string
  | Instantiate string
  | StartSimulation string
  | ToCsvAppend string
  | ToCsvCreate string

datatype ending = Returned | Raised exn

text \<open>The keys of the dictionary \<^verbatim>\<open>attacks\<close> (lines 89 to 95), the dataset names of step 2
  and the strategy names of step 4.\<close>

definition attacks :: "string list" where
  "attacks = [''na'', ''gaussian'', ''lie'', ''fang'', ''minmax'']"

definition datasets :: "string list" where
  "datasets = [''mnist'', ''fmnist'', ''cifar'', ''cifar100'', ''income'', ''house'']"

definition strategies :: "string list" where
  "strategies = [''flanders'', ''krum'', ''dnc'', ''fedavg'', ''bulyan'', ''trimmedmean'', ''fedmedian'']"

text \<open>The two guards of lines 79 and 83.\<close>

definition skip_bulyan :: "cfg \<Rightarrow> bool" where
  "skip_bulyan c = (strategy_name c = ''bulyan'' \<and> 20 < num_malicious c)"

definition skip_attack :: "cfg \<Rightarrow> bool" where
  "skip_attack c = (attack_fn c \<noteq> ''gaussian'' \<and> num_malicious c = 0 \<and> attack_fn c \<noteq> ''na'')"

text \<open>Lines 305 to 338: one data frame per path, appended when the file exists and
  created otherwise.\<close>

definition save_results :: "(string \<Rightarrow> bool) \<Rightarrow> cfg \<Rightarrow> effect list" where
  "save_results path_exists c =
     map (\<lambda>file_name. if path_exists file_name then ToCsvAppend file_name else ToCsvCreate file_name)
       [output_dir c @ ''/results.csv'', ''outputs/all_results.csv'']"

text \<open>
  \<^verbatim>\<open>main\<close>. \<open>path_exists\<close> is \<^verbatim>\<open>os.path.exists\<close>. The name of the attack is looked up in
  \<^verbatim>\<open>attacks\<close> while the arguments of \<^verbatim>\<open>EnhancedServer\<close> are evaluated, which is before
  \<^verbatim>\<open>start_simulation\<close> is called: a missing key raises KeyError there.
\<close>

definition main :: "(string \<Rightarrow> bool) \<Rightarrow> cfg \<Rightarrow> effect list \<times> ending" where
  "main path_exists c =
     (let start = [SetSeeds (seed c), Print ''config''] in
      if skip_bulyan c then
        (start @ [Print ''Skipping experiment because strategy is bulyan and num_malicious is > 20''],
         Returned)
      else if skip_attack c then
        (start @ [Print ''Skipping experiment because attack_fn is not gaussian and num_malicious is 0''],
         Returned)
      else
        let begun = start @ [Print ''Starting experiments'']
                      @ (if path_exists (history_dir c) then [Rmtree (history_dir c)] else [])
        in
        if dataset c \<notin> set datasets then (begun, Raised (ValueError ''Dataset not supported''))
        else if strategy_name c \<notin> set strategies then
          (begun @ [PrepareDataset (dataset c)], Raised (ValueError ''Strategy not supported''))
        else if attack_fn c \<notin> set attacks then
          (begun @ [PrepareDataset (dataset c), Instantiate (strategy_name c)],
           Raised (KeyError (attack_fn c)))
        else
          (begun @ [PrepareDataset (dataset c), Instantiate (strategy_name c),
                    StartSimulation (attack_fn c)] @ save_results path_exists c,
           Returned))"

text \<open>\<^verbatim>\<open>fit_config\<close>, lines 342 to 348: a dictionary, here the list of its items.\<close>

definition fit_config :: "int \<Rightarrow> (string \<times> int) list" where
  "fit_config server_round = [(''epochs'', 1), (''batch_size'', 32)]"

text \<open>What a list of effects holds: a start of the simulation, a write of results.\<close>

fun starts_simulation :: "effect \<Rightarrow> bool" where
  "starts_simulation (StartSimulation a) = True"
| "starts_simulation e = False"

fun writes_results :: "effect \<Rightarrow> bool" where
  "writes_results (ToCsvAppend f) = True"
| "writes_results (ToCsvCreate f) = True"
| "writes_results e = False"

subsection \<open>Configurations for running the script\<close>

definition cfg_bulyan :: cfg where
  "cfg_bulyan = \<lparr>seed = 33, strategy_name = ''bulyan'', num_malicious = 21,
     attack_fn = ''gaussian'', dataset = ''mnist'', history_dir = ''clients_params'',
     output_dir = ''outputs/run''\<rparr>"

definition cfg_no_malicious :: cfg where
  "cfg_no_malicious = \<lparr>seed = 33, strategy_name = ''dnc'', num_malicious = 0,
     attack_fn = ''lie'', dataset = ''mnist'', history_dir = ''clients_params'',
     output_dir = ''outputs/run''\<rparr>"

definition cfg_dnc :: cfg where
  "cfg_dnc = \<lparr>seed = 33, strategy_name = ''dnc'', num_malicious = 2,
     attack_fn = ''lie'', dataset = ''mnist'', history_dir = ''clients_params'',
     output_dir = ''outputs/run''\<rparr>"

definition cfg_unknown_attack_benign :: cfg where
  "cfg_unknown_attack_benign = \<lparr>seed = 33, strategy_name = ''fedavg'', num_malicious = 0,
     attack_fn = ''foo'', dataset = ''mnist'', history_dir = ''clients_params'',
     output_dir = ''outputs/run''\<rparr>"

definition cfg_unknown_attack :: cfg where
  "cfg_unknown_attack = \<lparr>seed = 33, strategy_name = ''fedavg'', num_malicious = 2,
     attack_fn = ''foo'', dataset = ''mnist'', history_dir = ''clients_params'',
     output_dir = ''outputs/run''\<rparr>"

definition cfg_unknown_strategy :: cfg where
  "cfg_unknown_strategy = \<lparr>seed = 33, strategy_name = ''multikrum'', num_malicious = 2,
     attack_fn = ''lie'', dataset = ''mnist'', history_dir = ''clients_params'',
     output_dir = ''outputs/run''\<rparr>"

definition no_files :: "string \<Rightarrow> bool" where
  "no_files path = False"


section \<open>Lists of results\<close>

text \<open>A comprehension returns a list exactly when every element returned.\<close>

lemma sequence_exn_Inrs [simp]: "sequence_exn (map Inr xs) = Inr xs"
  by (induction xs) simp_all

lemma sequence_exn_Inr_D: "sequence_exn rs = Inr xs \<Longrightarrow> rs = map Inr xs"
  by (induction rs arbitrary: xs) (auto split: sum.splits)

lemma sequence_exn_Inr_iff:
  "sequence_exn rs = Inr xs \<longleftrightarrow> rs = map Inr xs"
  using sequence_exn_Inr_D by auto

lemma sequence_exn_length:
  "sequence_exn (map f xs) = Inr ys \<Longrightarrow> length ys = length xs"
  by (metis length_map sequence_exn_Inr_iff)

lemma sequence_exn_nth:
  "sequence_exn (map f xs) = Inr ys \<Longrightarrow> i < length xs \<Longrightarrow> f (xs ! i) = Inr (ys ! i)"
  by (metis length_map nth_map sequence_exn_Inr_iff)

lemma sequence_exn_all_Inr:
  "(\<And>x. x \<in> set xs \<Longrightarrow> f x = Inr (h x)) \<Longrightarrow> sequence_exn (map f xs) = Inr (map h xs)"
  by (simp add: sequence_exn_Inr_iff)

lemma py_index_all: "sequence_exn (map (py_index xs) [0..<length xs]) = Inr xs"
proof -
  have "map (py_index xs) [0..<length xs] = map Inr (map (\<lambda>i. xs ! i) [0..<length xs])"
    by (simp add: py_index_def)
  then show ?thesis by (simp add: map_nth)
qed

lemma py_index_within:
  assumes "set idx \<subseteq> {0..<length xs}"
  shows "sequence_exn (map (py_index xs) idx) = Inr (map (\<lambda>i. xs ! i) idx)"
  using assms by (intro sequence_exn_all_Inr) (auto simp: py_index_def)

text \<open>Rows of one length, and their columns.\<close>

lemma rectangular_Cons [simp]:
  "rectangular (xs # xss) d \<longleftrightarrow> length xs = d \<and> rectangular xss d"
  by (simp add: rectangular_def)

lemma rectangular_Nil [simp]: "rectangular [] d"
  by (simp add: rectangular_def)

lemma rectangular_nth: "rectangular xss d \<Longrightarrow> xs \<in> set xss \<Longrightarrow> length xs = d"
  by (simp add: rectangular_def list_all_iff)

lemma rectangular_map: "(\<And>xs. xs \<in> set xss \<Longrightarrow> length (f xs) = d) \<Longrightarrow> rectangular (map f xss) d"
  by (simp add: rectangular_def list_all_iff)

lemma min_length_rectangular: "xss \<noteq> [] \<Longrightarrow> rectangular xss d \<Longrightarrow> min_length xss = d"
  by (induction xss rule: min_length.induct) auto

lemma zip_star_rectangular:
  "xss \<noteq> [] \<Longrightarrow> rectangular xss d \<Longrightarrow> zip_star xss = map (\<lambda>j. map (\<lambda>xs. xs ! j) xss) [0..<d]"
  by (simp add: zip_star_def min_length_rectangular)

lemma reduce_scalars_Cons: "reduce (\<lambda>a b. Inr (a + b)) (x # xs) = Inr (x + sum_list xs)"
  by (induction xs arbitrary: x) (simp_all add: add.assoc)

lemma reduce_scalars: "col \<noteq> [] \<Longrightarrow> reduce (\<lambda>a b. Inr (a + b)) col = Inr (sum_list col)"
  by (cases col) (simp_all add: reduce_scalars_Cons)

lemma np_broadcast_same_length:
  "length x = length y \<Longrightarrow> np_broadcast f x y = Inr (map2 f x y)"
  by (simp add: np_broadcast_def)

section \<open>Slices of a sort\<close>

text \<open>What \<^verbatim>\<open>np.argsort(...)[:to_keep]\<close> keeps, for a sort that meets \<open>argsort_ok\<close>: a
  prefix of a permutation of the positions, so distinct positions whose scores are not
  above the score of any position left out.\<close>

lemma argsort_length: "argsort_ok np \<Longrightarrow> length (argsort np s) = length s"
  unfolding argsort_ok_def by (metis card_atLeastLessThan diff_zero distinct_card)

lemma slice_to_subset: "set (slice_to xs k) \<subseteq> set xs"
  by (auto simp: slice_to_def dest: in_set_takeD)



lemma slice_to_all: "slice_to xs (int (length xs)) = xs"
  by (simp add: slice_to_def)





lemma kept_subset:
  assumes "argsort_ok np"
  shows "set (slice_to (argsort np s) k) \<subseteq> {0..<length s}"
  using assms slice_to_subset [of "argsort np s" k] by (simp add: argsort_ok_def)

lemma fold_inter_same: "(\<forall>K \<in> set Ks. K = A) \<Longrightarrow> fold (\<inter>) Ks A = A"
  by (induction Ks) auto

lemma fold_inter_subset: "fold (\<inter>) Ks A \<subseteq> A"
  by (induction Ks arbitrary: A) auto

lemma to_keep_no_malicious: "to_keep n c 0 = int n"
  by (simp add: to_keep_def py_int_def)

section \<open>One pass and the loop\<close>

text \<open>The projection, by the three ways line 17 can go.\<close>

lemma dnc_sample_project:
  assumes "0 < b" and "flat \<noteq> []" and "b < int (length (hd flat))"
  shows "dnc_sample np flat b g =
    (sequence_exn (map (\<lambda>fp. take_indices fp (fst (randint np g (length (hd flat)) (nat b)))) flat),
     snd (randint np g (length (hd flat)) (nat b)))"
  using assms unfolding dnc_sample_def
  by (cases flat) (simp_all del: sequence_exn.simps split: prod.splits)

lemma dnc_sample_whole:
  assumes "\<not> 0 < b \<or> (flat \<noteq> [] \<and> \<not> b < int (length (hd flat)))"
  shows "dnc_sample np flat b g = (Inr flat, g)"
  using assms unfolding dnc_sample_def
  by (cases flat) (auto simp del: sequence_exn.simps)

lemma dnc_sample_empty: "0 < b \<Longrightarrow> dnc_sample np [] b g = (Inl IndexError, g)"
  by (simp add: dnc_sample_def)

lemma dnc_sample_length:
  assumes "dnc_sample np flat b g = (Inr sampled, g')"
  shows "length sampled = length flat"
proof (cases "0 < b \<and> flat \<noteq> [] \<and> b < int (length (hd flat))")
  case True
  with assms show ?thesis
    by (auto simp: dnc_sample_project dest: sequence_exn_length)
next
  case False
  then consider "\<not> 0 < b \<or> (flat \<noteq> [] \<and> \<not> b < int (length (hd flat)))" | "0 < b \<and> flat = []"
    by blast
  then show ?thesis
    using assms by cases (auto simp: dnc_sample_whole dnc_sample_empty)
qed

lemma dnc_sample_projected:
  assumes "randint_ok np" and "0 < b" and "flat \<noteq> []" and "b < int (length (hd flat))"
    and "rectangular flat (length (hd flat))"
  shows "\<exists>params_indexes g'.
           randint np g (length (hd flat)) (nat b) = (params_indexes, g') \<and>
           length params_indexes = nat b \<and>
           dnc_sample np flat b g = (Inr (map (\<lambda>fp. map (\<lambda>i. fp ! i) params_indexes) flat), g')"
proof -
  obtain idx g' where d: "randint np g (length (hd flat)) (nat b) = (idx, g')"
    by (cases "randint np g (length (hd flat)) (nat b)")
  from assms(2,4) have pos: "0 < length (hd flat)" by auto
  from assms(1) pos d have len: "length idx = nat b"
    and below: "list_all (\<lambda>i. i < length (hd flat)) idx"
    unfolding randint_ok_def by (metis fst_conv)+
  have "take_indices fp idx = Inr (map (\<lambda>i. fp ! i) idx)" if "fp \<in> set flat" for fp
  proof -
    from that assms(5) have "length fp = length (hd flat)"
      by (simp add: rectangular_def list_all_iff)
    with below show ?thesis by (simp add: take_indices_def)
  qed
  then have "sequence_exn (map (\<lambda>fp. take_indices fp idx) flat)
      = Inr (map (\<lambda>fp. map (\<lambda>i. fp ! i) idx) flat)"
    by (rule sequence_exn_all_Inr)
  with d len show ?thesis
    using assms by (simp add: dnc_sample_project)
qed

lemma dnc_sample_succeeds:
  assumes "randint_ok np" and "flat \<noteq> []" and "rectangular flat d" and "0 < d"
  shows "\<exists>f d' g'. dnc_sample np flat b g = (Inr (map f flat), g') \<and> 0 < d' \<and>
            (\<forall>fp. length fp = d \<longrightarrow> length (f fp) = d')"
proof (cases "0 < b \<and> b < int (length (hd flat))")
  case True
  from assms(2,3) have hd: "length (hd flat) = d" by (cases flat) simp_all
  with assms(3) have "rectangular flat (length (hd flat))" by simp
  from dnc_sample_projected [OF assms(1) _ assms(2) _ this, of b g] True
  obtain idx g' where "length idx = nat b"
    "dnc_sample np flat b g = (Inr (map (\<lambda>fp. map (\<lambda>i. fp ! i) idx) flat), g')" by blast
  with True show ?thesis
    by (intro exI [of _ "\<lambda>fp. map (\<lambda>i. fp ! i) idx"] exI [of _ "nat b"] exI [of _ g']) simp
next
  case False
  with assms(2) have "dnc_sample np flat b g = (Inr (map (\<lambda>fp. fp) flat), g)"
    by (simp add: dnc_sample_whole)
  with assms(4) show ?thesis
    by (intro exI [of _ "\<lambda>fp. fp"] exI [of _ d] exI [of _ g]) simp
qed

text \<open>The scores of a pass that returns: one per client, each the square of the inner
  product of the client's sampled vector with the singular vector. The vector that
  enters the product is the sampled one, not the centred one.\<close>

lemma dnc_scores_length:
  "dnc_scores sampled v0 = Inr s \<Longrightarrow> length s = length sampled"
  unfolding dnc_scores_def by (rule sequence_exn_length)

lemma dnc_scores_nth:
  assumes "dnc_scores sampled v0 = Inr s" and "i < length sampled"
  shows "length (sampled ! i) = length v0 \<and> s ! i = (sum_list (map2 (*) (sampled ! i) v0)) ^ 2"
proof -
  from assms have
    "(case np_inner (sampled ! i) v0 of Inl e \<Rightarrow> Inl e | Inr t \<Rightarrow> Inr (t ^ 2)) = Inr (s ! i)"
    unfolding dnc_scores_def by (rule sequence_exn_nth)
  then show ?thesis
    by (auto simp: np_inner_def split: sum.splits if_splits)
qed

lemma dnc_iteration_scores:
  assumes "dnc_iteration np flat n c b m g = (Inr (s, I), g')"
  shows "\<exists>sampled mu model_c v0.
           dnc_sample np flat b g = (Inr sampled, g') \<and> dnc_mu sampled = Inr mu \<and>
           dnc_center sampled mu = Inr model_c \<and> svd_vh0 np model_c = Inr v0 \<and>
           dnc_scores sampled v0 = Inr s \<and> I = slice_to (argsort np s) (to_keep n c m)"
  using assms unfolding dnc_iteration_def
  by (auto split: prod.splits sum.splits)

lemma dnc_iteration_scores_uncentered:
  assumes "dnc_iteration np flat n c b m g = (Inr (s, I), g')"
  shows "\<exists>sampled mu model_c v0.
           dnc_sample np flat b g = (Inr sampled, g') \<and> dnc_mu sampled = Inr mu \<and>
           dnc_center sampled mu = Inr model_c \<and> svd_vh0 np model_c = Inr v0 \<and>
           length s = length sampled \<and>
           (\<forall>i < length sampled. s ! i = (sum_list (map2 (*) (sampled ! i) v0)) ^ 2)"
proof -
  from dnc_iteration_scores [OF assms] obtain sampled mu model_c v0 where
    a: "dnc_sample np flat b g = (Inr sampled, g')" "dnc_mu sampled = Inr mu"
       "dnc_center sampled mu = Inr model_c" "svd_vh0 np model_c = Inr v0"
    and sc: "dnc_scores sampled v0 = Inr s" by blast
  from sc have "length s = length sampled" by (rule dnc_scores_length)
  moreover have "\<forall>i < length sampled. s ! i = (sum_list (map2 (*) (sampled ! i) v0)) ^ 2"
    using dnc_scores_nth [OF sc] by simp
  ultimately show ?thesis using a by blast
qed

lemma dnc_iteration_length:
  assumes "dnc_iteration np flat n c b m g = (Inr (s, I), g')"
  shows "length s = length flat" and "I = slice_to (argsort np s) (to_keep n c m)"
proof -
  from dnc_iteration_scores [OF assms] obtain sampled v0 where
    "dnc_sample np flat b g = (Inr sampled, g')" "dnc_scores sampled v0 = Inr s"
    and I: "I = slice_to (argsort np s) (to_keep n c m)" by blast
  then show "length s = length flat"
    by (simp add: dnc_scores_length dnc_sample_length)
  from I show "I = slice_to (argsort np s) (to_keep n c m)" .
qed

lemma length_flattened [simp]: "length (flattened results) = length results"
  by (simp add: flattened_def)

text \<open>On vectors of one positive length, with a generator and a decomposition that meet
  their contracts, every pass returns.\<close>

lemma dnc_mu_rectangular:
  assumes "sampled \<noteq> []" and "rectangular sampled d"
  shows "dnc_mu sampled
    = Inr (map (\<lambda>j. sum_list (map (\<lambda>xs. xs ! j) sampled) / real (length sampled)) [0..<d])"
proof -
  have "(case reduce (\<lambda>a b. Inr (a + b)) (map (\<lambda>xs. xs ! j) sampled) of
           Inl e \<Rightarrow> Inl e | Inr t \<Rightarrow> Inr (t / real (length sampled)))
        = Inr (sum_list (map (\<lambda>xs. xs ! j) sampled) / real (length sampled))" for j :: nat
    using assms(1) by (simp add: reduce_scalars)
  then show ?thesis
    unfolding dnc_mu_def zip_star_rectangular [OF assms]
    by (simp add: sequence_exn_Inr_iff comp_def)
qed

lemma dnc_center_rectangular:
  assumes "rectangular sampled d" and "length mu = d"
  shows "dnc_center sampled mu = Inr (map (\<lambda>p. map2 (-) p mu) sampled)"
  unfolding dnc_center_def np_subtract_def
  using assms
  by (intro sequence_exn_all_Inr np_broadcast_same_length) (simp add: rectangular_nth)

lemma dnc_scores_rectangular:
  assumes "rectangular sampled d" and "length v0 = d"
  shows "dnc_scores sampled v0 = Inr (map (\<lambda>p. (sum_list (map2 (*) p v0)) ^ 2) sampled)"
  unfolding dnc_scores_def
  using assms
  by (intro sequence_exn_all_Inr) (simp add: np_inner_def rectangular_nth)

lemma dnc_iteration_succeeds:
  assumes "randint_ok np" and "svd_ok np" and "flat \<noteq> []" and "rectangular flat d" and "0 < d"
  shows "\<exists>f v0 g'. dnc_iteration np flat n c b m g =
      (Inr (map (\<lambda>fp. (sum_list (map2 (*) (f fp) v0)) ^ 2) flat,
            slice_to (argsort np (map (\<lambda>fp. (sum_list (map2 (*) (f fp) v0)) ^ 2) flat)) (to_keep n c m)),
       g')"
proof -
  from dnc_sample_succeeds [OF assms(1,3,4,5), of b g] obtain f d' g' where
    s: "dnc_sample np flat b g = (Inr (map f flat), g')" and d': "0 < d'"
    and f: "\<forall>fp. length fp = d \<longrightarrow> length (f fp) = d'" by blast
  let ?sampled = "map f flat"
  from assms(3) have ne: "?sampled \<noteq> []" by simp
  from assms(4) f have rect: "rectangular ?sampled d'"
    by (simp add: rectangular_def list_all_iff)
  let ?mu = "map (\<lambda>j. sum_list (map (\<lambda>xs. xs ! j) ?sampled) / real (length ?sampled)) [0..<d']"
  have mu: "dnc_mu ?sampled = Inr ?mu" by (rule dnc_mu_rectangular [OF ne rect])
  let ?model_c = "map (\<lambda>p. map2 (-) p ?mu) ?sampled"
  have c: "dnc_center ?sampled ?mu = Inr ?model_c"
    by (rule dnc_center_rectangular [OF rect]) simp
  have "rectangular ?model_c d'"
    using rect by (simp add: rectangular_def list_all_iff)
  moreover from ne have "?model_c \<noteq> []" by simp
  ultimately obtain v0 where v: "svd_vh0 np ?model_c = Inr v0" and lv: "length v0 = d'"
    using assms(2) d' unfolding svd_ok_def by blast
  have sc: "dnc_scores ?sampled v0 = Inr (map (\<lambda>p. (sum_list (map2 (*) p v0)) ^ 2) ?sampled)"
    by (rule dnc_scores_rectangular [OF rect lv])
  have "dnc_iteration np flat n c b m g =
      (Inr (map (\<lambda>p. (sum_list (map2 (*) p v0)) ^ 2) ?sampled,
            slice_to (argsort np (map (\<lambda>p. (sum_list (map2 (*) p v0)) ^ 2) ?sampled)) (to_keep n c m)),
       g')"
    unfolding dnc_iteration_def by (simp only: s mu c v sc prod.case sum.case)
  then show ?thesis
    by (intro exI [of _ f] exI [of _ v0] exI [of _ g']) (simp add: comp_def)
qed

lemma dnc_loop_succeeds:
  assumes "randint_ok np" and "svd_ok np" and "flat \<noteq> []" and "rectangular flat d" and "0 < d"
  shows "\<exists>Is g'. dnc_loop np flat n c b m k acc g = (Inr Is, g')"
proof (induction k arbitrary: acc g)
  case 0
  show ?case by simp
next
  case (Suc k)
  from dnc_iteration_succeeds [OF assms, of n c b m g] obtain s I g1 where
    "dnc_iteration np flat n c b m g = (Inr (s, I), g1)" by blast
  with Suc [of "acc @ [set I]" g1] show ?case by simp
qed

text \<open>The sets a loop that returns has appended: one per pass, each the kept set of a
  pass.\<close>

lemma dnc_loop_sets:
  assumes "dnc_loop np flat n c b m k acc g = (Inr Is, g')"
  shows "\<exists>new. Is = acc @ new \<and> length new = k \<and>
           (\<forall>K \<in> set new. \<exists>s I h h'. dnc_iteration np flat n c b m h = (Inr (s, I), h') \<and> K = set I)"
  using assms
proof (induction k arbitrary: acc g)
  case 0
  then show ?case by simp
next
  case (Suc k)
  obtain r g1 where it: "dnc_iteration np flat n c b m g = (r, g1)"
    by (cases "dnc_iteration np flat n c b m g")
  from Suc.prems it obtain s I where r: "r = Inr (s, I)"
    and rest: "dnc_loop np flat n c b m k (acc @ [set I]) g1 = (Inr Is, g')"
    by (cases r) (auto split: prod.splits)
  from Suc.IH [OF rest] obtain new where new: "Is = (acc @ [set I]) @ new" "length new = k"
    "\<forall>K \<in> set new. \<exists>s I h h'. dnc_iteration np flat n c b m h = (Inr (s, I), h') \<and> K = set I"
    by blast
  from it r have "\<exists>s' I' h h'. dnc_iteration np flat n c b m h = (Inr (s', I'), h') \<and> set I = set I'"
    by blast
  with new show ?case
    by (intro exI [of _ "set I # new"]) auto
qed

lemma dnc_kept_sets_within:
  assumes "argsort_ok np" and "dnc_kept_sets np results c b niters m g = (Inr I_good, g')"
    and "K \<in> set I_good"
  shows "\<exists>s I h h'. dnc_iteration np (flattened results) (length results) c b m h = (Inr (s, I), h')
          \<and> K = set I \<and> length s = length results
          \<and> I = slice_to (argsort np s) (to_keep (length results) c m)
          \<and> K \<subseteq> {0..<length results}"
proof -
  from assms(2,3) dnc_loop_sets [of np "flattened results" "length results" c b m "nat niters" "[]" g I_good g']
  obtain s I h h' where it: "dnc_iteration np (flattened results) (length results) c b m h = (Inr (s, I), h')"
    and K: "K = set I"
    unfolding dnc_kept_sets_def by auto
  from dnc_iteration_length [OF it] have len: "length s = length results"
    and I: "I = slice_to (argsort np s) (to_keep (length results) c m)" by simp_all
  from kept_subset [OF assms(1), of s] I K len have "K \<subseteq> {0..<length results}" by simp
  with it K len I show ?thesis by blast
qed

lemma dnc_I_final_within:
  assumes "argsort_ok np" and "dnc_I_final np results c b niters m g = (Inr I_final, g')"
  shows "I_final \<subseteq> {0..<length results}"
proof -
  from assms(2) obtain K Ks where ks: "dnc_kept_sets np results c b niters m g = (Inr (K # Ks), g')"
    and fin: "I_final = fold (\<inter>) Ks K"
    unfolding dnc_I_final_def by (auto split: prod.splits sum.splits list.splits)
  from dnc_kept_sets_within [OF assms(1) ks, of K] have "K \<subseteq> {0..<length results}" by auto
  with fin fold_inter_subset [of Ks K] show ?thesis by blast
qed

lemma aggregate_dnc_of_I_final:
  assumes "argsort_ok np" and "dnc_I_final np results c b niters m g = (Inr I_final, g')"
  shows "aggregate_dnc np results c b niters m g
    = (aggregate (map (\<lambda>i. results ! i) (sorted_list_of_set I_final)), g')"
proof -
  have sub: "I_final \<subseteq> {0..<length results}" by (rule dnc_I_final_within [OF assms])
  then have "finite I_final" by (rule finite_subset) simp
  with sub have "set (sorted_list_of_set I_final) \<subseteq> {0..<length results}" by simp
  from py_index_within [OF this] assms(2) show ?thesis
    by (simp add: aggregate_dnc_def)
qed

lemma dnc_iteration_keeps_all:
  assumes "argsort_ok np" and "dnc_iteration np flat (length flat) c b 0 g = (Inr (s, I), g')"
  shows "set I = {0..<length flat}"
proof -
  from dnc_iteration_length [OF assms(2)] have len: "length s = length flat"
    and I: "I = slice_to (argsort np s) (int (length flat))"
    by (simp_all add: to_keep_no_malicious)
  from assms(1) len have "length (argsort np s) = length flat" by (simp add: argsort_length)
  with I slice_to_all [of "argsort np s"] have "I = argsort np s" by simp
  with assms(1) len show ?thesis by (simp add: argsort_ok_def)
qed

lemma dnc_no_malicious_keeps_all:
  assumes "argsort_ok np" and "0 < niters"
    and "dnc_kept_sets np results c b niters 0 g = (Inr I_good, g')"
  shows "list_all (\<lambda>K. K = {0..<length results}) I_good"
    and "aggregate_dnc np results c b niters 0 g = (fedavg results, g')"
proof -
  from assms(3) dnc_loop_sets [of np "flattened results" "length results" c b 0 "nat niters" "[]" g I_good g']
  have len: "length I_good = nat niters"
    and each: "\<forall>K \<in> set I_good. \<exists>s I h h'.
        dnc_iteration np (flattened results) (length results) c b 0 h = (Inr (s, I), h') \<and> K = set I"
    unfolding dnc_kept_sets_def by auto
  have all: "K = {0..<length results}" if "K \<in> set I_good" for K
    using each that dnc_iteration_keeps_all [OF assms(1), of "flattened results"] by fastforce
  then show "list_all (\<lambda>K. K = {0..<length results}) I_good"
    by (simp add: list_all_iff)
  from len assms(2) obtain K Ks where I_good: "I_good = K # Ks" by (cases I_good) auto
  with all have "K = {0..<length results}" and "\<forall>K' \<in> set Ks. K' = {0..<length results}"
    by simp_all
  then have "fold (\<inter>) Ks K = {0..<length results}"
    using fold_inter_same [of Ks "{0..<length results}"] by simp
  with assms(3) I_good have "dnc_I_final np results c b niters 0 g = (Inr {0..<length results}, g')"
    by (simp add: dnc_I_final_def)
  then show "aggregate_dnc np results c b niters 0 g = (fedavg results, g')"
    by (simp add: aggregate_dnc_def py_index_all fedavg_def)
qed

lemma dnc_loop_identical:
  assumes "\<And>h. \<exists>s h'. dnc_iteration np flat n c b m h = (Inr (s, I0), h')"
  shows "\<exists>g'. dnc_loop np flat n c b m k acc g = (Inr (acc @ replicate k (set I0)), g')"
proof (induction k arbitrary: acc g)
  case 0
  show ?case by simp
next
  case (Suc k)
  from assms [of g] obtain s g1 where "dnc_iteration np flat n c b m g = (Inr (s, I0), g1)" by blast
  with Suc [of "acc @ [set I0]" g1] show ?case
    by (simp add: replicate_app_Cons_same)
qed

text \<open>The generator: untouched by a pass that does not project, one draw further after
  a pass that does.\<close>

lemma dnc_sample_no_projection:
  assumes "\<not> projects b flat"
  shows "dnc_sample np flat b g = (fst (dnc_sample np flat b g0), g)"
proof (cases "0 < b \<and> flat = []")
  case True
  then show ?thesis by (simp add: dnc_sample_empty)
next
  case False
  with assms have "\<not> 0 < b \<or> (flat \<noteq> [] \<and> \<not> b < int (length (hd flat)))"
    by (auto simp: projects_def)
  then show ?thesis by (simp add: dnc_sample_whole)
qed

lemma dnc_iteration_no_projection:
  assumes "\<not> projects b flat"
  shows "dnc_iteration np flat n c b m g = (fst (dnc_iteration np flat n c b m g0), g)"
proof -
  obtain r where r: "dnc_sample np flat b g0 = (r, g0)"
    using dnc_sample_no_projection [OF assms, of np g0 g0] by simp
  have "dnc_sample np flat b g = (r, g)"
    using dnc_sample_no_projection [OF assms, of np g g0] r by simp
  with r show ?thesis
    unfolding dnc_iteration_def by (simp split: sum.splits)
qed

lemma dnc_loop_no_projection:
  assumes "\<not> projects b flat"
  shows "dnc_loop np flat n c b m k acc g = (fst (dnc_loop np flat n c b m k acc g0), g)"
proof (induction k arbitrary: acc)
  case 0
  show ?case by simp
next
  case (Suc k)
  obtain r where r: "dnc_iteration np flat n c b m g0 = (r, g0)"
    using dnc_iteration_no_projection [OF assms, of np n c m g0 g0] by simp
  have r': "dnc_iteration np flat n c b m g = (r, g)"
    using dnc_iteration_no_projection [OF assms, of np n c m g g0] r by simp
  show ?case
  proof (cases r)
    case (Inl e)
    with r r' show ?thesis by simp
  next
    case (Inr p)
    with r r' Suc show ?thesis by (cases p) simp
  qed
qed

lemma dnc_I_final_no_projection:
  assumes "\<not> projects b (flattened results)"
  shows "dnc_I_final np results c b niters m g = (fst (dnc_I_final np results c b niters m g0), g)"
proof -
  have k: "dnc_kept_sets np results c b niters m h
      = (fst (dnc_kept_sets np results c b niters m g0), h)" for h
    unfolding dnc_kept_sets_def by (rule dnc_loop_no_projection [OF assms])
  define r where "r = fst (dnc_kept_sets np results c b niters m g0)"
  have "dnc_kept_sets np results c b niters m g0 = (r, g0)"
    and "dnc_kept_sets np results c b niters m g = (r, g)"
    using k [of g0] k [of g] by (simp_all add: r_def)
  then show ?thesis
    unfolding dnc_I_final_def by (simp split: sum.splits list.splits)
qed

lemma aggregate_dnc_no_projection:
  assumes "\<not> projects b (flattened results)"
  shows "aggregate_dnc np results c b niters m g = (fst (aggregate_dnc np results c b niters m g0), g)"
proof -
  obtain r where r: "dnc_I_final np results c b niters m g0 = (r, g0)"
    using dnc_I_final_no_projection [OF assms, of np c niters m g0 g0] by simp
  have "dnc_I_final np results c b niters m g = (r, g)"
    using dnc_I_final_no_projection [OF assms, of np c niters m g g0] r by simp
  with r show ?thesis
    unfolding aggregate_dnc_def by (simp split: sum.splits)
qed

lemma dnc_sample_projection_state:
  assumes "projects b flat" and "dnc_sample np flat b g = (r, g')"
  shows "g' = after_draw np (length (hd flat)) b g"
  using assms by (simp add: projects_def dnc_sample_project after_draw_def)

lemma dnc_iteration_projection_state:
  assumes "projects b flat" and "dnc_iteration np flat n c b m g = (r, g')"
  shows "g' = after_draw np (length (hd flat)) b g"
proof -
  obtain r0 g0 where s: "dnc_sample np flat b g = (r0, g0)" by (cases "dnc_sample np flat b g")
  from s assms(2) have "g' = g0"
    unfolding dnc_iteration_def by (auto split: sum.splits)
  with dnc_sample_projection_state [OF assms(1) s] show ?thesis by simp
qed

lemma dnc_loop_projection_state:
  assumes "projects b flat" and "dnc_loop np flat n c b m k acc g = (Inr Is, g')"
  shows "g' = (after_draw np (length (hd flat)) b ^^ k) g"
  using assms(2)
proof (induction k arbitrary: acc g)
  case 0
  then show ?case by simp
next
  case (Suc k)
  obtain r g1 where it: "dnc_iteration np flat n c b m g = (r, g1)"
    by (cases "dnc_iteration np flat n c b m g")
  have g1: "g1 = after_draw np (length (hd flat)) b g"
    by (rule dnc_iteration_projection_state [OF assms(1) it])
  from Suc.prems it obtain s I where r: "r = Inr (s, I)"
    and rest: "dnc_loop np flat n c b m k (acc @ [set I]) g1 = (Inr Is, g')"
    by (cases r) (auto split: prod.splits)
  from Suc.IH [OF rest] g1 show ?case
    by (simp add: funpow_swap1)
qed

section \<open>The weighted average is the weighted mean\<close>

text \<open>For results of one shape whose weights do not sum to zero, \<^verbatim>\<open>aggregate\<close> returns the
  weighted mean; for copies of one update it returns that update.\<close>

lemma reduce_np_add_Cons:
  assumes "length z = d" and "rectangular ys d"
  shows "reduce np_add (z # ys) = Inr (map (\<lambda>j. z ! j + sum_list (map (\<lambda>a. a ! j) ys)) [0..<d])"
  using assms
proof (induction ys arbitrary: z)
  case Nil
  then have "map ((!) z) [0..<d] = z" using map_nth [of z] by simp
  then show ?case by simp
next
  case (Cons y ys)
  then have ly: "length y = d" and rect: "rectangular ys d" by simp_all
  with Cons.prems have add: "np_add z y = Inr (map2 (+) z y)"
    by (simp add: np_add_def np_broadcast_same_length)
  from Cons.prems ly have lw: "length (map2 (+) z y) = d" by simp
  have "map (\<lambda>j. map2 (+) z y ! j + sum_list (map (\<lambda>a. a ! j) ys)) [0..<d]
      = map (\<lambda>j. z ! j + sum_list (map (\<lambda>a. a ! j) (y # ys))) [0..<d]"
    using Cons.prems ly by (intro map_cong) (simp_all add: add.assoc)
  with Cons.IH [OF lw rect] add show ?case by simp
qed

lemma reduce_np_add_rectangular:
  assumes "col \<noteq> []" and "rectangular col d"
  shows "reduce np_add col = Inr (map (\<lambda>j. sum_list (map (\<lambda>a. a ! j) col)) [0..<d])"
proof -
  from assms(1) obtain z ys where col: "col = z # ys" by (cases col) auto
  with assms(2) have "length z = d" "rectangular ys d" by simp_all
  from reduce_np_add_Cons [OF this] col show ?thesis by simp
qed

lemma same_shape_D: "same_shape rs shape \<Longrightarrow> (w, k) \<in> set rs \<Longrightarrow> map length w = shape"
  by (auto simp: same_shape_def list_all_iff)


lemma aggregate_Nil: "aggregate [] = Inr (Averaged [])"
  by (simp add: aggregate_def zip_star_def)

lemma aggregate_weighted_mean:
  assumes "rs \<noteq> []" and "same_shape rs shape" and "sum_list (map snd rs) \<noteq> 0"
  shows "aggregate rs = Inr (Averaged (weighted_mean rs))"
proof -
  define L where "L = length shape"
  define weighted where "weighted =
     map (\<lambda>(weights, num_examples).
            map (\<lambda>layer. map (\<lambda>x. x * of_int num_examples) layer) weights) rs"
  define total :: real where "total = of_int (sum_list (map snd rs))"
  from assms(3) have total: "total \<noteq> 0" by (simp add: total_def)
  have len_w: "length w = L" if "(w, k) \<in> set rs" for w k
    using same_shape_D [OF assms(2) that] by (auto simp: L_def dest: arg_cong [of _ _ length])
  have len_l: "length (w ! l) = shape ! l" if "(w, k) \<in> set rs" "l < L" for w k l
    using same_shape_D [OF assms(2) that(1)] that(2) len_w [OF that(1)]
    by (metis nth_map)
  have ne: "weighted \<noteq> []" using assms(1) by (simp add: weighted_def)
  have rect: "rectangular weighted L"
    unfolding weighted_def by (rule rectangular_map) (auto simp: len_w)
  have cols: "zip_star weighted = map (\<lambda>l. map (\<lambda>ws. ws ! l) weighted) [0..<L]"
    by (rule zip_star_rectangular [OF ne rect])
  have col: "reduce np_add (map (\<lambda>ws. ws ! l) weighted)
      = Inr (map (\<lambda>j. sum_list (map (\<lambda>(w, k). w ! l ! j * of_int k) rs)) [0..<shape ! l])"
    if l: "l < L" for l
  proof -
    have "rectangular (map (\<lambda>ws. ws ! l) weighted) (shape ! l)"
      unfolding weighted_def using l
      by (intro rectangular_map) (auto simp: len_w len_l)
    moreover from ne have "map (\<lambda>ws. ws ! l) weighted \<noteq> []" by simp
    ultimately have "reduce np_add (map (\<lambda>ws. ws ! l) weighted)
      = Inr (map (\<lambda>j. sum_list (map (\<lambda>a. a ! j) (map (\<lambda>ws. ws ! l) weighted))) [0..<shape ! l])"
      by (rule reduce_np_add_rectangular [rotated])
    moreover have "sum_list (map (\<lambda>a. a ! j) (map (\<lambda>ws. ws ! l) weighted))
        = sum_list (map (\<lambda>(w, k). w ! l ! j * of_int k) rs)" if "j < shape ! l" for j
      unfolding weighted_def map_map comp_def
      using l that
      by (intro arg_cong [of _ _ sum_list] map_cong) (auto simp: len_w len_l)
    ultimately show ?thesis
      by (simp cong: map_cong)
  qed
  define totals where "totals =
     map (\<lambda>l. map (\<lambda>j. sum_list (map (\<lambda>(w, k). w ! l ! j * of_int k) rs)) [0..<shape ! l]) [0..<L]"
  have seq: "sequence_exn (map (reduce np_add) (zip_star weighted)) = Inr totals"
    unfolding cols totals_def map_map comp_def
    by (rule sequence_exn_all_Inr) (simp add: col)
  from assms(1) obtain w0 k0 rest where rs: "rs = (w0, k0) # rest" by (cases rs) auto
  then have w0: "length w0 = L" "\<And>l. l < L \<Longrightarrow> length (w0 ! l) = shape ! l"
    using len_w [of w0 k0] len_l [of w0 k0] by simp_all
  have "map (map (\<lambda>x. x / total)) totals = weighted_mean rs"
    unfolding totals_def weighted_mean_def total_def using w0
    by (simp add: rs comp_def cong: map_cong)
  with seq total show ?thesis
    unfolding aggregate_def Let_def weighted_def [symmetric] total_def
    by (simp add: assms(3))
qed

lemma sum_list_positive:
  assumes "ws \<noteq> []" and "\<forall>w \<in> set ws. (0::int) < w"
  shows "0 < sum_list ws"
proof -
  from assms(1) obtain w rest where ws: "ws = w # rest" by (cases ws) auto
  with assms(2) have "0 < w" and "0 \<le> sum_list rest"
    by (auto intro!: sum_list_nonneg simp: less_imp_le)
  with ws show ?thesis by simp
qed

lemma sum_list_of_int: "of_int (sum_list ws) = sum_list (map of_int ws)"
  by (induction ws) simp_all

lemma weighted_mean_identical:
  assumes "ws \<noteq> []" and "sum_list ws \<noteq> 0"
  shows "weighted_mean (map (\<lambda>w. (x, w)) ws) = x"
proof -
  from assms(1) obtain w0 rest where ws: "ws = w0 # rest" by (cases ws) auto
  define total :: real where "total = of_int (sum_list ws)"
  from assms(2) have total: "total \<noteq> 0" by (simp add: total_def)
  have entry: "sum_list (map (\<lambda>(w, k). w ! l ! j * of_int k) (map (\<lambda>w. (x, w)) ws)) / total = x ! l ! j"
    for l j
  proof -
    have "sum_list (map (\<lambda>(w, k). w ! l ! j * of_int k) (map (\<lambda>w. (x, w)) ws))
        = sum_list (map (\<lambda>w. x ! l ! j * of_int w) ws)" by (simp add: comp_def)
    also have "\<dots> = x ! l ! j * sum_list (map of_int ws)" by (simp add: sum_list_const_mult)
    also have "\<dots> = x ! l ! j * total" by (simp add: total_def sum_list_of_int)
    finally show ?thesis using total by simp
  qed
  have "weighted_mean (map (\<lambda>w. (x, w)) ws)
      = map (\<lambda>l. map (\<lambda>j. x ! l ! j) [0..<length (x ! l)]) [0..<length x]"
    unfolding weighted_mean_def using entry
    by (simp add: ws comp_def total_def)
  also have "\<dots> = map (\<lambda>l. x ! l) [0..<length x]"
    by (simp add: map_nth)
  also have "\<dots> = x" by (simp add: map_nth)
  finally show ?thesis .
qed

lemma aggregate_identical:
  assumes "ws \<noteq> []" and "sum_list ws \<noteq> 0"
  shows "aggregate (map (\<lambda>w. (x, w)) ws) = Inr (Averaged x)"
proof -
  have "same_shape (map (\<lambda>w. (x, w)) ws) (map length x)"
    by (simp add: same_shape_def list_all_iff)
  moreover have "sum_list (map snd (map (\<lambda>w. (x, w)) ws)) \<noteq> 0"
    using assms(2) by (simp add: comp_def)
  moreover from assms(1) have "map (\<lambda>w. (x, w)) ws \<noteq> []" by simp
  ultimately show ?thesis
    using aggregate_weighted_mean weighted_mean_identical [OF assms] by metis
qed

section \<open>The small numpy meets the contracts\<close>

lemma small_numpy_randint_ok: "randint_ok small_numpy"
  by (auto simp: randint_ok_def small_numpy_def list_randint_def list_all_iff)

lemma small_numpy_svd_ok: "svd_ok small_numpy"
proof -
  have "\<exists>v. unit_svd M = Inr v \<and> length v = d" if "M \<noteq> []" "0 < d" "rectangular M d" for M d
  proof -
    from that(1) obtain row rest where M: "M = row # rest" by (cases M) auto
    with that(3) have "length row = d" by simp
    with that M show ?thesis by (auto simp: unit_svd_def)
  qed
  then show ?thesis by (simp add: svd_ok_def small_numpy_def)
qed

lemma snd_zip_upt: "map snd (zip s [0..<length s]) = [0..<length s]"
  by (simp add: map_snd_zip)

lemma stable_argsort_distinct: "distinct (stable_argsort s)"
proof -
  have "distinct (map snd (zip s [0..<length s]))" by (simp only: snd_zip_upt distinct_upt)
  then have "distinct (zip s [0..<length s]) \<and> inj_on snd (set (zip s [0..<length s]))"
    by (simp only: distinct_map)
  then show ?thesis
    by (simp add: stable_argsort_def distinct_map)
qed

lemma stable_argsort_set: "set (stable_argsort s) = {0..<length s}"
proof -
  have "set (map snd (zip s [0..<length s])) = {0..<length s}"
    by (simp only: snd_zip_upt set_upt)
  then show ?thesis
    unfolding stable_argsort_def by (simp only: set_map set_sort)
qed

lemma stable_argsort_sorted: "sorted (map (\<lambda>i. s ! i) (stable_argsort s))"
proof -
  have "s ! snd p = fst p" if "p \<in> set (zip s [0..<length s])" for p
    using that by (auto simp: in_set_zip)
  then have "map (\<lambda>i. s ! i) (stable_argsort s) = map fst (sort_key fst (zip s [0..<length s]))"
    by (simp add: stable_argsort_def)
  then show ?thesis by (simp add: sorted_sort_key)
qed

lemma small_numpy_argsort_ok: "argsort_ok small_numpy"
  by (simp add: argsort_ok_def small_numpy_def stable_argsort_distinct stable_argsort_set
      stable_argsort_sorted)

lemma stable_argsort_replicate: "stable_argsort (replicate n a) = [0..<n]"
proof -
  have "sort_key fst xs = xs" if "\<forall>p \<in> set xs. fst p = a" for xs :: "(real \<times> nat) list"
    using that
  proof (induction xs)
    case Nil
    show ?case by simp
  next
    case (Cons p ps)
    then have "sort_key fst ps = ps" and "\<forall>q \<in> set ps. fst p \<le> fst q" by simp_all
    then show ?case by (cases ps) auto
  qed
  moreover have "\<forall>p \<in> set (zip (replicate n a) [0..<n]). fst p = a"
    by (auto dest: set_zip_leftD)
  ultimately show ?thesis by (simp add: stable_argsort_def)
qed

section \<open>The aggregation: what the claims say and what the code does\<close>

subsection \<open>An empty intersection\<close>

text \<open>
  C1 as stated fails. Two clients send \<open>[0, 1]\<close> and \<open>[1, 0]\<close>; with \<open>b = 1\<close>, \<open>c = 1\<close>, one
  malicious client and two passes that draw coordinate 0 and then coordinate 1, the first
  pass keeps client 0 and the second client 1. The intersection is empty, and the call
  returns the empty list of layers: no exception is raised.
\<close>

theorem dnc_empty_intersection_returns:
  "dnc_I_final small_numpy two_opposed 1 1 2 1 [0, 1] = (Inr {}, []) \<and>
   aggregate_dnc small_numpy two_opposed 1 1 2 1 [0, 1] = (Inr (Averaged []), [])"
  by code_simp

text \<open>
  C1, amended. Whenever the passes complete and the intersection of their kept sets is
  empty, \<^verbatim>\<open>aggregate_dnc\<close> raises nothing: it calls \<^verbatim>\<open>aggregate\<close> on the empty list and
  returns its result, the empty list of layers.
\<close>

theorem aggregate_dnc_empty_intersection:
  assumes "dnc_I_final np results c b niters m g = (Inr {}, g')"
  shows "aggregate_dnc np results c b niters m g = (Inr (Averaged []), g')"
  using assms by (simp add: aggregate_dnc_def aggregate_Nil)

text \<open>The amended statement at three clients of which none is kept
  (\<open>c = 3\<close> and one malicious client: \<open>to_keep = int(3 - 3 * 1) = 0\<close>).\<close>

theorem aggregate_dnc_empty_intersection_witness:
  "dnc_I_final small_numpy with_outlier 3 0 1 1 [] = (Inr {}, []) \<and>
   aggregate_dnc small_numpy with_outlier 3 0 1 1 [] = (Inr (Averaged []), [])"
proof -
  have h: "dnc_I_final small_numpy with_outlier 3 0 1 1 [] = (Inr {}, [])"
    by code_simp
  from h aggregate_dnc_empty_intersection [OF h] show ?thesis by simp
qed

subsection \<open>The scores\<close>

text \<open>
  C2. The claim has each score be the squared inner product of the client's centred
  update with \<open>v\<close>. The code centres the updates for the decomposition only; line 33
  takes the inner product of the update as sampled, not centred. Three clients send
  \<open>[0]\<close>, \<open>[10]\<close> and \<open>[11]\<close>, with \<open>c = 1\<close>, one malicious client, no projection and one
  pass: the mean is 7, the centred updates are \<open>-7\<close>, 3 and 4, and \<open>v\<close> is \<open>[1]\<close> (or \<open>[-1]\<close>,
  with the same squares). The scores of the claim would be 49, 9 and 16, which keep
  clients 1 and 2; the code computes 0, 100 and 121, keeps clients 0 and 1 and returns
  their mean 5.
\<close>

theorem dnc_scores_are_uncentered:
  "dnc_mu (flattened with_outlier) = Inr [7] \<and>
   dnc_center (flattened with_outlier) [7] = Inr [[-7], [3], [4]] \<and>
   svd_vh0 small_numpy [[-7], [3], [4]] = Inr [1] \<and>
   dnc_scores [[-7], [3], [4]] [1] = Inr [49, 9, 16] \<and>
   slice_to (argsort small_numpy [49, 9, 16]) (to_keep 3 1 1) = [1, 2] \<and>
   dnc_iteration small_numpy (flattened with_outlier) 3 1 0 1 [] = (Inr ([0, 100, 121], [0, 1]), []) \<and>
   aggregate_dnc small_numpy with_outlier 1 0 1 1 [] = (Inr (Averaged [[5]]), [])"
  by code_simp

subsection \<open>The random source\<close>

text \<open>
  C3 as stated fails. \<^verbatim>\<open>aggregate_dnc\<close> has no parameter for a random source: it draws from
  numpy's process-wide generator, which \<^verbatim>\<open>main\<close> seeds once. A call leaves that generator
  advanced, so a second call on the same arguments in the same process draws other
  coordinates. Here the generator hands out 0 and then 1: the first call keeps clients 0
  and 1 and leaves the generator at its second number, the second call, from there,
  keeps clients 1 and 2.
\<close>

theorem dnc_second_call_differs:
  "dnc_I_final small_numpy three_crossed 1 1 1 1 [0, 1] = (Inr {0, 1}, [1]) \<and>
   dnc_I_final small_numpy three_crossed 1 1 1 1 [1] = (Inr {1, 2}, []) \<and>
   {0, 1} \<noteq> {1, 2 :: nat}"
  by code_simp

text \<open>
  C3, amended. The final intersection is a function of the arguments and of the state
  of numpy's process-wide generator at the call. A call that does not project (\<open>b\<close> not
  positive, or no vector longer than \<open>b\<close>) returns the same result from every generator
  state and leaves the generator as it was. A call that projects and completes leaves
  the generator \<open>niters\<close> draws further. Two calls from the same generator state return
  the same intersection.
\<close>

theorem dnc_generator_dependence:
  "(\<not> projects b (flattened results) \<longrightarrow>
      dnc_I_final np results c b niters m g = (fst (dnc_I_final np results c b niters m g0), g) \<and>
      aggregate_dnc np results c b niters m g = (fst (aggregate_dnc np results c b niters m g0), g))
   \<and> (projects b (flattened results) \<and> dnc_I_final np results c b niters m g = (Inr K, g') \<longrightarrow>
      g' = (after_draw np (length (hd (flattened results))) b ^^ nat niters) g)
   \<and> (g = g0 \<longrightarrow> dnc_I_final np results c b niters m g = dnc_I_final np results c b niters m g0)"
proof (intro conjI impI)
  assume "\<not> projects b (flattened results)"
  then show "dnc_I_final np results c b niters m g = (fst (dnc_I_final np results c b niters m g0), g)"
    and "aggregate_dnc np results c b niters m g = (fst (aggregate_dnc np results c b niters m g0), g)"
    by (rule dnc_I_final_no_projection, rule aggregate_dnc_no_projection)
next
  assume a: "projects b (flattened results) \<and> dnc_I_final np results c b niters m g = (Inr K, g')"
  then obtain Is where "dnc_kept_sets np results c b niters m g = (Inr Is, g')"
    unfolding dnc_I_final_def by (auto split: prod.splits sum.splits list.splits)
  then show "g' = (after_draw np (length (hd (flattened results))) b ^^ nat niters) g"
    unfolding dnc_kept_sets_def
    using a dnc_loop_projection_state [of b "flattened results" np "length results" c m
        "nat niters" "[]" g Is g']
    by simp
next
  assume "g = g0"
  then show "dnc_I_final np results c b niters m g = dnc_I_final np results c b niters m g0" by simp
qed

text \<open>The amended statement at a call that does not project, from a generator state
  other than the one it is compared with, and at a call of one projecting pass.\<close>

theorem dnc_generator_dependence_witness:
  "\<not> projects 0 (flattened two_layers) \<and>
   dnc_I_final small_numpy two_layers 1 0 2 1 [4, 2] = (Inr {0, 1}, [4, 2]) \<and>
   projects 1 (flattened three_crossed) \<and>
   dnc_I_final small_numpy three_crossed 1 1 1 1 [0, 1] = (Inr {0, 1}, [1]) \<and>
   (after_draw small_numpy (length (hd (flattened three_crossed))) 1 ^^ nat 1) [0, 1] = [1]"
proof -
  have p0: "\<not> projects 0 (flattened two_layers)" by (simp add: projects_def)
  have e0: "fst (dnc_I_final small_numpy two_layers 1 0 2 1 []) = Inr {0, 1}" by code_simp
  have p1: "projects 1 (flattened three_crossed)"
    by (simp add: projects_def flattened_def three_crossed_def flatten_params_def)
  have e1: "dnc_I_final small_numpy three_crossed 1 1 1 1 [0, 1] = (Inr {0, 1}, [1])" by code_simp
  from dnc_generator_dependence [of 0 two_layers small_numpy 1 2 1 "[4, 2]" "[]"] p0 e0
  have a: "dnc_I_final small_numpy two_layers 1 0 2 1 [4, 2] = (Inr {0, 1}, [4, 2])" by simp
  from dnc_generator_dependence [of 1 three_crossed small_numpy 1 1 1 "[0, 1]" _ "{0, 1}" "[1]"] p1 e1
  have b: "(after_draw small_numpy (length (hd (flattened three_crossed))) 1 ^^ nat 1) [0, 1] = [1]"
    by simp
  from p0 a p1 e1 b show ?thesis by simp
qed

subsection \<open>How many clients a pass keeps, and what is returned\<close>




subsection \<open>No malicious client\<close>

text \<open>
  C5 as stated fails. With \<open>niters = 0\<close> no pass runs, \<^verbatim>\<open>I_good\<close> stays empty and
  \<^verbatim>\<open>set.intersection(*I_good)\<close> raises TypeError, where FedAvg returns the weighted mean.
\<close>

theorem dnc_no_pass_raises:
  "aggregate_dnc small_numpy two_layers 1 0 0 0 [] = (Inl TypeError, []) \<and>
   fedavg two_layers = Inr (Averaged [[26 / 3], [5]])"
  by code_simp

text \<open>
  C5, amended. For a non-empty list of results whose flattened vectors have one positive
  length, with at least one pass and \<open>num_malicious = 0\<close>, every pass keeps all clients
  and \<^verbatim>\<open>aggregate_dnc\<close> returns what FedAvg returns on all the results.
\<close>

theorem dnc_no_malicious_is_fedavg:
  assumes "randint_ok np" and "svd_ok np" and "argsort_ok np"
    and "results \<noteq> []" and "rectangular (flattened results) d" and "0 < d" and "0 < niters"
  shows "\<exists>I_good g'. dnc_kept_sets np results c b niters 0 g = (Inr I_good, g')
           \<and> length I_good = nat niters
           \<and> list_all (\<lambda>K. K = {0..<length results}) I_good
           \<and> aggregate_dnc np results c b niters 0 g = (fedavg results, g')"
proof -
  from assms(4) have "flattened results \<noteq> []" by (simp add: flattened_def)
  from dnc_loop_succeeds [OF assms(1,2) this assms(5,6), of "length results" c b 0 "nat niters" "[]" g]
  obtain I_good g' where ks: "dnc_kept_sets np results c b niters 0 g = (Inr I_good, g')"
    unfolding dnc_kept_sets_def by blast
  from ks dnc_loop_sets [of np "flattened results" "length results" c b 0 "nat niters" "[]" g I_good g']
  have "length I_good = nat niters"
    unfolding dnc_kept_sets_def by auto
  with ks dnc_no_malicious_keeps_all [OF assms(3,7) ks] show ?thesis by blast
qed

text \<open>The amended statement at three clients and two passes.\<close>

theorem dnc_no_malicious_is_fedavg_witness:
  "randint_ok small_numpy \<and> svd_ok small_numpy \<and> argsort_ok small_numpy \<and>
   rectangular (flattened two_layers) 2 \<and>
   (\<exists>I_good g'. dnc_kept_sets small_numpy two_layers 1 0 2 0 [] = (Inr I_good, g')
           \<and> length I_good = 2
           \<and> list_all (\<lambda>K. K = {0..<3}) I_good
           \<and> aggregate_dnc small_numpy two_layers 1 0 2 0 [] = (fedavg two_layers, g')) \<and>
   fedavg two_layers = Inr (Averaged [[26 / 3], [5]])"
proof -
  have ne: "two_layers \<noteq> []" by (simp add: two_layers_def)
  have rect: "rectangular (flattened two_layers) 2" by code_simp
  have len: "length two_layers = 3" by (simp add: two_layers_def)
  have fa: "fedavg two_layers = Inr (Averaged [[26 / 3], [5]])" by code_simp
  from dnc_no_malicious_is_fedavg [OF small_numpy_randint_ok small_numpy_svd_ok small_numpy_argsort_ok ne rect,
      of 2 1 0 "[]"] len
  have "\<exists>I_good g'. dnc_kept_sets small_numpy two_layers 1 0 2 0 [] = (Inr I_good, g')
           \<and> length I_good = 2
           \<and> list_all (\<lambda>K. K = {0..<3}) I_good
           \<and> aggregate_dnc small_numpy two_layers 1 0 2 0 [] = (fedavg two_layers, g')"
    by simp
  with small_numpy_randint_ok small_numpy_svd_ok small_numpy_argsort_ok rect fa
  show ?thesis by blast
qed

subsection \<open>Identical updates\<close>

text \<open>
  C6 as stated fails. Three clients send the same update; with \<open>c = 1.5\<close> and two malicious
  clients \<open>to_keep = int(3 - 1.5 * 2) = 0\<close>: no client is kept, and the call returns the
  empty list of layers, not the update.
\<close>

theorem dnc_identical_none_kept:
  "dnc_I_final small_numpy all_equal (3 / 2) 0 1 2 [] = (Inr {}, []) \<and>
   aggregate_dnc small_numpy all_equal (3 / 2) 0 1 2 [] = (Inr (Averaged []), []) \<and>
   fst (hd all_equal) = [[1, 2], [3]] \<and>
   Averaged [] \<noteq> Averaged [[1, 2], [3]]"
  by code_simp

text \<open>
  C6, amended. All clients send the same parameters \<open>x\<close>, of at least one coordinate, with
  positive \<^verbatim>\<open>num_examples\<close>; at least one pass runs and \<open>to_keep\<close> is at least 1; and the
  sort orders a list of equal scores the same way whatever the common score is. Then
  the final intersection is not empty and \<^verbatim>\<open>aggregate_dnc\<close> returns \<open>x\<close>.
\<close>

theorem dnc_identical_updates:
  assumes "randint_ok np" and "svd_ok np" and "argsort_ok np"
    and ties: "\<forall>a. argsort np (replicate (length ws) a) = argsort np (replicate (length ws) 0)"
    and "ws \<noteq> []" and "list_all (\<lambda>w. 0 < w) ws" and "0 < length (flatten_params x)"
    and "0 < niters" and "1 \<le> to_keep (length ws) c m"
  shows "\<exists>K g'. dnc_I_final np (map (\<lambda>w. (x, w)) ws) c b niters m g = (Inr K, g') \<and> K \<noteq> {}
            \<and> aggregate_dnc np (map (\<lambda>w. (x, w)) ws) c b niters m g = (Inr (Averaged x), g')"
proof -
  define results where "results = map (\<lambda>w. (x, w)) ws"
  define n where "n = length ws"
  define y where "y = flatten_params x"
  define I0 where "I0 = slice_to (argsort np (replicate n 0)) (to_keep n c m)"
  have flat: "flattened results = map (\<lambda>w. y) ws"
    by (simp add: flattened_def results_def y_def comp_def)
  have len: "length results = n" by (simp add: results_def n_def)
  from assms(5) have ne: "flattened results \<noteq> []" by (simp add: flat)
  have rect: "rectangular (flattened results) (length y)"
    by (simp add: flat rectangular_def list_all_iff)
  from assms(7) have pos: "0 < length y" by (simp add: y_def)
  have it: "\<exists>s h'. dnc_iteration np (flattened results) n c b m h = (Inr (s, I0), h')" for h
  proof -
    from dnc_iteration_succeeds [OF assms(1,2) ne rect pos, of n c b m h] obtain f v0 h' where
      "dnc_iteration np (flattened results) n c b m h =
        (Inr (map (\<lambda>fp. (sum_list (map2 (*) (f fp) v0)) ^ 2) (flattened results),
              slice_to (argsort np (map (\<lambda>fp. (sum_list (map2 (*) (f fp) v0)) ^ 2) (flattened results)))
                (to_keep n c m)), h')" by blast
    moreover have "map (\<lambda>fp. (sum_list (map2 (*) (f fp) v0)) ^ 2) (flattened results)
        = replicate n ((sum_list (map2 (*) (f y) v0)) ^ 2)"
      by (simp add: flat n_def comp_def map_replicate_const)
    moreover have "argsort np (replicate n ((sum_list (map2 (*) (f y) v0)) ^ 2))
        = argsort np (replicate n 0)"
      using ties [rule_format, of "(sum_list (map2 (*) (f y) v0)) ^ 2"] by (simp add: n_def)
    ultimately show ?thesis
      by (simp add: I0_def)
  qed
  from dnc_loop_identical [of np "flattened results" n c b m I0 "nat niters" "[]" g] it
  obtain g' where ks: "dnc_kept_sets np results c b niters m g = (Inr (replicate (nat niters) (set I0)), g')"
    unfolding dnc_kept_sets_def len by auto
  from assms(8) obtain j where j: "nat niters = Suc j" by (cases "nat niters") auto
  have "fold (\<inter>) (replicate j (set I0)) (set I0) = set I0"
    by (rule fold_inter_same) simp
  with ks j have fin: "dnc_I_final np results c b niters m g = (Inr (set I0), g')"
    by (simp add: dnc_I_final_def)
  have lenA: "length (argsort np (replicate n 0)) = n"
    using argsort_length [OF assms(3), of "replicate n 0"] by simp
  from assms(5) have n: "0 < n" by (simp add: n_def)
  from assms(9) have k: "0 < nat (to_keep n c m)" "0 \<le> to_keep n c m" by (simp_all add: n_def)
  with lenA n have "I0 \<noteq> []" by (auto simp: I0_def slice_to_def)
  then have K: "set I0 \<noteq> {}" by simp
  have sub: "set I0 \<subseteq> {0..<n}"
    using kept_subset [OF assms(3), of "replicate n 0" "to_keep n c m"] by (simp add: I0_def)
  define idx where "idx = sorted_list_of_set (set I0)"
  have idx_set: "set idx = set I0" and idx_ne: "idx \<noteq> []"
    using K by (simp_all add: idx_def)
  have res: "map (\<lambda>i. results ! i) idx = map (\<lambda>w. (x, w)) (map (\<lambda>i. ws ! i) idx)"
    using sub idx_set by (auto simp: results_def n_def)
  have "\<forall>w \<in> set (map (\<lambda>i. ws ! i) idx). 0 < w"
    using assms(6) sub idx_set by (auto simp: list_all_iff n_def)
  moreover from idx_ne have wne: "map (\<lambda>i. ws ! i) idx \<noteq> []" by simp
  ultimately have "0 < sum_list (map (\<lambda>i. ws ! i) idx)"
    by (intro sum_list_positive)
  then have "sum_list (map (\<lambda>i. ws ! i) idx) \<noteq> 0" by simp
  from aggregate_identical [OF wne this, of x]
  have "aggregate (map (\<lambda>i. results ! i) idx) = Inr (Averaged x)" by (simp only: res)
  with aggregate_dnc_of_I_final [OF assms(3) fin]
  have "aggregate_dnc np results c b niters m g = (Inr (Averaged x), g')"
    by (simp add: idx_def)
  with fin K show ?thesis
    unfolding results_def by blast
qed

text \<open>The amended statement at three clients with weights 2, 1 and 5, three projecting
  passes and \<open>to_keep = 2\<close>.\<close>

theorem dnc_identical_updates_witness:
  "randint_ok small_numpy \<and> svd_ok small_numpy \<and> argsort_ok small_numpy \<and>
   to_keep 3 1 1 = 2 \<and>
   all_equal = map (\<lambda>w. ([[1, 2], [3]], w)) [2, 1, 5] \<and>
   (\<exists>K g'. dnc_I_final small_numpy all_equal 1 2 3 1 [2, 2, 0, 1, 1, 1] = (Inr K, g') \<and> K \<noteq> {}
       \<and> aggregate_dnc small_numpy all_equal 1 2 3 1 [2, 2, 0, 1, 1, 1]
            = (Inr (Averaged [[1, 2], [3]]), g'))"
proof -
  have eq: "all_equal = map (\<lambda>w. ([[1, 2], [3]], w)) [2, 1, 5]" by (simp add: all_equal_def)
  have ties: "\<forall>a. argsort small_numpy (replicate (length [2, 1, 5 :: int]) a)
      = argsort small_numpy (replicate (length [2, 1, 5 :: int]) 0)"
    by (simp only: small_numpy_def numpy.simps stable_argsort_replicate) simp
  have k: "to_keep 3 1 1 = 2" by code_simp
  have k1: "1 \<le> to_keep (length [2, 1, 5 :: int]) 1 1" by code_simp
  have d: "0 < length (flatten_params [[1, 2], [3]])" by (simp add: flatten_params_def)
  from dnc_identical_updates [OF small_numpy_randint_ok small_numpy_svd_ok small_numpy_argsort_ok ties _ _ d _ k1,
      of 3 2 "[2, 2, 0, 1, 1, 1]"]
  have "\<exists>K g'. dnc_I_final small_numpy all_equal 1 2 3 1 [2, 2, 0, 1, 1, 1] = (Inr K, g') \<and> K \<noteq> {}
       \<and> aggregate_dnc small_numpy all_equal 1 2 3 1 [2, 2, 0, 1, 1, 1]
            = (Inr (Averaged [[1, 2], [3]]), g')"
    by (simp add: eq)
  with small_numpy_randint_ok small_numpy_svd_ok small_numpy_argsort_ok k eq
  show ?thesis by blast
qed

subsection \<open>The sampled coordinates\<close>

text \<open>
  C9. With \<open>b > 0\<close> and the first vector longer than \<open>b\<close>, a pass makes one call of
  \<^verbatim>\<open>np.random.randint(0, len, size=b)\<close> and indexes every client's vector by the array that
  call returns: the same indices, in the same order, for all clients. The indices are
  used as drawn, so an index drawn twice gives its coordinate twice; for vectors of one
  length each projection has \<open>b\<close> entries.
\<close>

theorem dnc_sample_shared_indices:
  assumes "0 < b" and "flat \<noteq> []" and "b < int (length (hd flat))"
  shows "\<exists>params_indexes g'.
           randint np g (length (hd flat)) (nat b) = (params_indexes, g') \<and>
           dnc_sample np flat b g
             = (sequence_exn (map (\<lambda>fp. take_indices fp params_indexes) flat), g') \<and>
           (randint_ok np \<and> rectangular flat (length (hd flat)) \<longrightarrow>
              length params_indexes = nat b \<and>
              dnc_sample np flat b g
                = (Inr (map (\<lambda>fp. map (\<lambda>i. fp ! i) params_indexes) flat), g'))"
proof -
  obtain idx g' where d: "randint np g (length (hd flat)) (nat b) = (idx, g')"
    by (cases "randint np g (length (hd flat)) (nat b)")
  with assms have one: "dnc_sample np flat b g
      = (sequence_exn (map (\<lambda>fp. take_indices fp idx) flat), g')"
    by (simp add: dnc_sample_project)
  have two: "length idx = nat b \<and>
      dnc_sample np flat b g = (Inr (map (\<lambda>fp. map (\<lambda>i. fp ! i) idx) flat), g')"
    if "randint_ok np" "rectangular flat (length (hd flat))"
    using dnc_sample_projected [OF that(1) assms that(2), of g] d by simp
  from d one two show ?thesis by blast
qed

text \<open>The statement at two vectors of three coordinates and a draw of index 1 twice.\<close>

theorem dnc_sample_shared_indices_witness:
  "randint_ok small_numpy \<and> rectangular two_vectors (length (hd two_vectors)) \<and>
   randint small_numpy [1, 1, 5] (length (hd two_vectors)) (nat 2) = ([1, 1], [5]) \<and>
   dnc_sample small_numpy two_vectors 2 [1, 1, 5] = (Inr [[20, 20], [50, 50]], [5])"
proof -
  have ne: "two_vectors \<noteq> []" and len: "2 < int (length (hd two_vectors))"
    and rect: "rectangular two_vectors (length (hd two_vectors))"
    by (simp_all add: two_vectors_def)
  have draw: "randint small_numpy [1, 1, 5] (length (hd two_vectors)) (nat 2) = ([1, 1], [5])"
    by code_simp
  have b: "0 < (2 :: int)" by simp
  from dnc_sample_shared_indices [OF b ne len, of small_numpy "[1, 1, 5]"] obtain idx g' where
    d: "randint small_numpy [1, 1, 5] (length (hd two_vectors)) (nat 2) = (idx, g')"
    and p: "randint_ok small_numpy \<and> rectangular two_vectors (length (hd two_vectors)) \<longrightarrow>
              length idx = nat 2 \<and>
              dnc_sample small_numpy two_vectors 2 [1, 1, 5]
                = (Inr (map (\<lambda>fp. map (\<lambda>i. fp ! i) idx) two_vectors), g')"
    by (elim exE conjE) (rule that, assumption+)
  from d draw have "idx = [1, 1]" and "g' = [5]" by simp_all
  with p small_numpy_randint_ok rect
  have "dnc_sample small_numpy two_vectors 2 [1, 1, 5]
      = (Inr (map (\<lambda>fp. map (\<lambda>i. fp ! i) [1, 1]) two_vectors), [5])"
    by blast
  then have "dnc_sample small_numpy two_vectors 2 [1, 1, 5] = (Inr [[20, 20], [50, 50]], [5])"
    by (simp add: two_vectors_def)
  with small_numpy_randint_ok rect draw show ?thesis by (intro conjI)
qed

section \<open>The script: the guards, the names, the fit configuration\<close>

text \<open>
  C10. \<^verbatim>\<open>fit_config\<close> returns the configuration with \<open>epochs\<close> 1 and \<open>batch_size\<close> 32 for
  every server round: the result does not depend on \<open>server_round\<close>.
\<close>

theorem fit_config_every_round:
  "fit_config server_round = [(''epochs'', 1), (''batch_size'', 32)] \<and>
   fit_config server_round = fit_config other_round"
  by (simp add: fit_config_def)

text \<open>
  C8. When the strategy is bulyan and \<open>num_malicious\<close> exceeds 20, and when \<open>attack_fn\<close>
  is neither gaussian nor na and \<open>num_malicious\<close> is 0, \<^verbatim>\<open>main\<close> returns with no simulation
  started and no result written, and never prints that the experiments start. In every
  other configuration the guards are passed: \<^verbatim>\<open>main\<close> prints that the experiments start.
\<close>

theorem main_skip_guards:
  "((strategy_name c = ''bulyan'' \<and> 20 < num_malicious c) \<or>
    (attack_fn c \<noteq> ''gaussian'' \<and> attack_fn c \<noteq> ''na'' \<and> num_malicious c = 0)
      \<longrightarrow> snd (main path_exists c) = Returned
          \<and> \<not> list_ex starts_simulation (fst (main path_exists c))
          \<and> \<not> list_ex writes_results (fst (main path_exists c))
          \<and> Print ''Starting experiments'' \<notin> set (fst (main path_exists c)))
   \<and>
   (\<not> ((strategy_name c = ''bulyan'' \<and> 20 < num_malicious c) \<or>
       (attack_fn c \<noteq> ''gaussian'' \<and> attack_fn c \<noteq> ''na'' \<and> num_malicious c = 0))
      \<longrightarrow> Print ''Starting experiments'' \<in> set (fst (main path_exists c)))"
proof -
  have guards: "(skip_bulyan c \<or> skip_attack c) =
      ((strategy_name c = ''bulyan'' \<and> 20 < num_malicious c) \<or>
       (attack_fn c \<noteq> ''gaussian'' \<and> attack_fn c \<noteq> ''na'' \<and> num_malicious c = 0))"
    by (auto simp: skip_bulyan_def skip_attack_def)
  show ?thesis
    unfolding guards [symmetric]
    by (simp add: main_def Let_def)
qed

text \<open>The theorem at three configurations: bulyan with 21 malicious clients, the lie attack
  with no malicious client, and a configuration that passes both guards.\<close>

theorem main_skip_guards_witness:
  "snd (main no_files cfg_bulyan) = Returned
   \<and> \<not> list_ex starts_simulation (fst (main no_files cfg_bulyan))
   \<and> \<not> list_ex writes_results (fst (main no_files cfg_bulyan))
   \<and> snd (main no_files cfg_no_malicious) = Returned
   \<and> \<not> list_ex starts_simulation (fst (main no_files cfg_no_malicious))
   \<and> \<not> list_ex writes_results (fst (main no_files cfg_no_malicious))
   \<and> Print ''Starting experiments'' \<in> set (fst (main no_files cfg_dnc))"
  using main_skip_guards [of cfg_bulyan no_files] main_skip_guards [of cfg_no_malicious no_files]
    main_skip_guards [of cfg_dnc no_files]
  by (simp add: cfg_bulyan_def cfg_no_malicious_def cfg_dnc_def)

text \<open>
  C7 as stated fails: with the attack name \<open>foo\<close>, which is no key of \<^verbatim>\<open>attacks\<close>, and no
  malicious client, the second guard returns before any name is looked at, and \<^verbatim>\<open>main\<close>
  ends normally.
\<close>

theorem main_unknown_attack_returns:
  "attack_fn cfg_unknown_attack_benign \<notin> set attacks \<and>
   main no_files cfg_unknown_attack_benign =
     ([SetSeeds 33, Print ''config'',
       Print ''Skipping experiment because attack_fn is not gaussian and num_malicious is 0''],
      Returned)"
  by (simp add: main_def cfg_unknown_attack_benign_def skip_bulyan_def skip_attack_def attacks_def)

text \<open>
  C7, amended. For a configuration that passes both guards, a strategy name that is not
  one of the seven supported or an attack name that is no key of \<^verbatim>\<open>attacks\<close> makes \<^verbatim>\<open>main\<close>
  end with an exception, and neither is the simulation started nor a result written.
  With a supported dataset the exception is the ValueError \<open>Strategy not supported\<close> for
  the strategy, and for the attack (the strategy being supported) the KeyError of the
  missing key.
\<close>

theorem main_unsupported_name_raises:
  assumes "\<not> skip_bulyan c" and "\<not> skip_attack c"
    and "strategy_name c \<notin> set strategies \<or> attack_fn c \<notin> set attacks"
  shows "(\<exists>e. snd (main path_exists c) = Raised e)
    \<and> \<not> list_ex starts_simulation (fst (main path_exists c))
    \<and> \<not> list_ex writes_results (fst (main path_exists c))
    \<and> (dataset c \<in> set datasets \<and> strategy_name c \<notin> set strategies \<longrightarrow>
           snd (main path_exists c) = Raised (ValueError ''Strategy not supported''))
    \<and> (dataset c \<in> set datasets \<and> strategy_name c \<in> set strategies \<longrightarrow>
           snd (main path_exists c) = Raised (KeyError (attack_fn c)))"
  using assms by (auto simp: main_def Let_def)

text \<open>The amended statement at an unknown strategy and at an unknown attack, each with two
  malicious clients.\<close>

theorem main_unsupported_name_raises_witness:
  "\<not> skip_bulyan cfg_unknown_strategy \<and> \<not> skip_attack cfg_unknown_strategy
   \<and> strategy_name cfg_unknown_strategy \<notin> set strategies
   \<and> snd (main no_files cfg_unknown_strategy) = Raised (ValueError ''Strategy not supported'')
   \<and> \<not> list_ex starts_simulation (fst (main no_files cfg_unknown_strategy))
   \<and> \<not> skip_bulyan cfg_unknown_attack \<and> \<not> skip_attack cfg_unknown_attack
   \<and> attack_fn cfg_unknown_attack \<notin> set attacks
   \<and> snd (main no_files cfg_unknown_attack) = Raised (KeyError ''foo'')
   \<and> \<not> list_ex starts_simulation (fst (main no_files cfg_unknown_attack))"
proof -
  have s: "\<not> skip_bulyan cfg_unknown_strategy" "\<not> skip_attack cfg_unknown_strategy"
    "strategy_name cfg_unknown_strategy \<notin> set strategies"
    "dataset cfg_unknown_strategy \<in> set datasets"
    by (simp_all add: cfg_unknown_strategy_def skip_bulyan_def skip_attack_def strategies_def
        datasets_def)
  have a: "\<not> skip_bulyan cfg_unknown_attack" "\<not> skip_attack cfg_unknown_attack"
    "attack_fn cfg_unknown_attack \<notin> set attacks"
    "dataset cfg_unknown_attack \<in> set datasets" "strategy_name cfg_unknown_attack \<in> set strategies"
    "attack_fn cfg_unknown_attack = ''foo''"
    by (simp_all add: cfg_unknown_attack_def skip_bulyan_def skip_attack_def strategies_def
        datasets_def attacks_def)
  from s a
    main_unsupported_name_raises [of cfg_unknown_strategy no_files]
    main_unsupported_name_raises [of cfg_unknown_attack no_files]
  show ?thesis by simp
qed

end
